(* ===== verification/Prelude.thy ===== *)
theory Prelude
  imports Complex_Main "HOL-Library.Word" "HOL-Library.Multiset" "HOL-Library.Signed_Division"
begin

text \<open>
  Shared vocabulary of the MetricBench development: the widths of the C++ integers, the error
  values, the array accesses that can fail, the two counting loops of the sources, decimal
  printing, and the generic lemmas the components use.

  Unsigned C++ integers are machine words (\<open>unsigned int\<close> is \<open>u32\<close>, \<open>uint64_t\<close> and
  \<open>unsigned long\<close> are \<open>u64\<close>) and wrap. Signed integers are \<open>int\<close>: where the source lets a
  signed value leave its range, the model returns \<^term>\<open>Inl SignedOverflow\<close> or applies the
  conversion \<open>to_i32\<close>. Floating point numbers are exact reals.
\<close>

section \<open>Types and results\<close>

type_synonym u32 = "32 word"
type_synonym u64 = "64 word"

text \<open>
  Everything that ends an operation abnormally: undefined behaviour the sources can run into
  (out of bounds access, signed overflow, an iterator range whose end precedes its start, a
  pointer or value that was never assigned, a function without its return), the end of
  the process by \<open>std::terminate\<close>, a loop whose unsigned counter wraps for ever, and the
  exceptions the sources throw or catch.
\<close>

datatype mb_error =
    OutOfBounds
  | SignedOverflow
  | InvalidRange
  | UninitPointer
  | UninitValue
  | MissingReturn
  | Terminate
  | Diverges
  | InvalidArgument
  | OutOfRange
  | SqlException string
  | RuntimeError string
  | MongoException string

type_synonym 'a res = "mb_error + 'a"

text \<open>
  An exception that leaves the function of a thread, or a scope that owns a joinable thread object,
  ends the process.
\<close>

definition uncaught :: "mb_error \<Rightarrow> mb_error" where
  "uncaught e =
     (case e of
        SqlException w \<Rightarrow> Terminate
      | RuntimeError w \<Rightarrow> Terminate
      | MongoException w \<Rightarrow> Terminate
      | InvalidArgument \<Rightarrow> Terminate
      | OutOfRange \<Rightarrow> Terminate
      | _ \<Rightarrow> e)"

definition in_thread :: "'a res option \<Rightarrow> 'a res option" where
  "in_thread r = (case r of None \<Rightarrow> None | Some (Inl e) \<Rightarrow> Some (Inl (uncaught e)) | Some (Inr x) \<Rightarrow> Some (Inr x))"

named_theorems res_simps "equations of the result type"
named_theorems arr_simps "array access and update"
named_theorems defs "definitions of small operations that proofs unfold together"

definition rbind :: "'a res \<Rightarrow> ('a \<Rightarrow> 'b res) \<Rightarrow> 'b res" where
  "rbind m f = (case m of Inl e \<Rightarrow> Inl e | Inr x \<Rightarrow> f x)"

lemma rbind_Inl [simp, res_simps]: "rbind (Inl e) f = Inl e"
  by (simp add: rbind_def)

lemma rbind_Inr [simp, res_simps]: "rbind (Inr x) f = f x"
  by (simp add: rbind_def)

lemma rbind_eq_Inr [res_simps]: "rbind m f = Inr y \<longleftrightarrow> (\<exists>x. m = Inr x \<and> f x = Inr y)"
  by (cases m) auto

lemma rbind_eq_Inl: "rbind m f = Inl e \<longleftrightarrow> m = Inl e \<or> (\<exists>x. m = Inr x \<and> f x = Inl e)"
  by (cases m) auto

text \<open>A loop body run over a list of values, stopping at the first error.\<close>

fun rfold :: "('x \<Rightarrow> 's \<Rightarrow> 's res) \<Rightarrow> 'x list \<Rightarrow> 's \<Rightarrow> 's res" where
  "rfold f [] s = Inr s"
| "rfold f (x # xs) s = rbind (f x s) (rfold f xs)"

lemma rfold_append: "rfold f (xs @ ys) s = rbind (rfold f xs s) (rfold f ys)"
proof (induction xs arbitrary: s)
  case (Cons x xs)
  then show ?case by (cases "f x s") auto
qed simp

lemma rfold_fun: "rfold f [] = Inr" "rfold f (x # xs) = (\<lambda>s. rbind (f x s) (rfold f xs))"
  by (rule ext, simp)+

lemma rbind_Inr_right [simp]: "rbind m Inr = m"
  by (cases m) simp_all

lemma rbind_assoc: "rbind (rbind m f) g = rbind m (\<lambda>x. rbind (f x) g)"
  by (cases m) simp_all

lemma rfold_concat: "rfold f (concat (map g xs)) s = rfold (\<lambda>x s. rfold f (g x) s) xs s"
proof (induction xs arbitrary: s)
  case (Cons x xs)
  have "rfold f (concat (map g xs)) = rfold (\<lambda>x s. rfold f (g x) s) xs" by (rule ext) (rule Cons.IH)
  then show ?case by (simp add: rfold_append)
qed simp

lemma rfold_pure: "(\<And>x s. f x s = Inr (g x s)) \<Longrightarrow> rfold f xs s = Inr (fold g xs s)"
  by (induction xs arbitrary: s) auto

lemma rfold_invariant:
  assumes "\<And>x s t. x \<in> set xs \<Longrightarrow> P s \<Longrightarrow> f x s = Inr t \<Longrightarrow> P t"
    and "P s" and "rfold f xs s = Inr t"
  shows "P t"
  using assms by (induction xs arbitrary: s) (auto simp: rbind_eq_Inr)

section \<open>Arrays\<close>

text \<open>Indexing a C++ array with a signed value: outside the bounds there is no element.\<close>

definition arr_get :: "'a list \<Rightarrow> int \<Rightarrow> 'a res" where
  "arr_get xs i = (if 0 \<le> i \<and> i < int (length xs) then Inr (xs ! nat i) else Inl OutOfBounds)"

definition arr_set :: "'a list \<Rightarrow> int \<Rightarrow> 'a \<Rightarrow> 'a list res" where
  "arr_set xs i v = (if 0 \<le> i \<and> i < int (length xs) then Inr (xs[nat i := v]) else Inl OutOfBounds)"

lemma arr_get_ok [arr_simps]: "n < length xs \<Longrightarrow> arr_get xs (int n) = Inr (xs ! n)"
  by (simp add: arr_get_def)

lemma arr_get_bad [arr_simps]: "length xs \<le> n \<Longrightarrow> arr_get xs (int n) = Inl OutOfBounds"
  by (simp add: arr_get_def)

lemma arr_set_ok [arr_simps]: "n < length xs \<Longrightarrow> arr_set xs (int n) v = Inr (xs[n := v])"
  by (simp add: arr_set_def)

lemma arr_get_Inr: "arr_get xs i = Inr v \<longleftrightarrow> 0 \<le> i \<and> i < int (length xs) \<and> v = xs ! nat i"
  by (auto simp: arr_get_def)

lemma arr_set_Inr: "arr_set xs i v = Inr ys \<longleftrightarrow> 0 \<le> i \<and> i < int (length xs) \<and> ys = xs[nat i := v]"
  by (auto simp: arr_set_def)

section \<open>Signed integers\<close>

text \<open>Conversion of a wider integer to \<open>int32_t\<close> (two's complement), and the checked increment.\<close>

definition to_i32 :: "int \<Rightarrow> int" where
  "to_i32 x = (x + 2147483648) mod 4294967296 - 2147483648"

definition inc_i32 :: "int \<Rightarrow> int res" where
  "inc_i32 x = (if x = 2147483647 then Inl SignedOverflow else Inr (x + 1))"

lemma to_i32_id: "- 2147483648 \<le> x \<Longrightarrow> x < 2147483648 \<Longrightarrow> to_i32 x = x"
  by (simp add: to_i32_def)

lemma to_i32_range: "- 2147483648 \<le> to_i32 x \<and> to_i32 x < 2147483648"
  by (simp add: to_i32_def)

lemma unat_word_of_int_small: "0 \<le> i \<Longrightarrow> i < 4294967296 \<Longrightarrow> unat (word_of_int i :: u32) = nat i"
  by (simp only: unat_eq_nat_uint uint_word_of_int) simp

lemma sint_small: "unat (w :: u32) < 2147483647 \<Longrightarrow> sint w = int (unat w)"
proof -
  assume "unat w < 2147483647"
  then have "int (unat w) < 2147483647" by linarith
  then have "uint w < 2147483647" by simp
  moreover have "0 \<le> uint w" by simp
  ultimately have "- 2147483648 \<le> uint w" "uint w < 2147483648" by linarith+
  then have "signed_take_bit 31 (uint w) = uint w" by (intro signed_take_bit_int_eq_self) simp_all
  then show ?thesis using sint_uint [of w] by simp
qed

text \<open>\<open>static_cast\<close> of a floating point value to an integer type truncates towards zero.\<close>

definition trunc :: "real \<Rightarrow> int" where
  "trunc x = (if 0 \<le> x then \<lfloor>x\<rfloor> else \<lceil>x\<rceil>)"

lemma trunc_nonneg: "0 \<le> x \<Longrightarrow> trunc x = \<lfloor>x\<rfloor>"
  by (simp add: trunc_def)

lemma trunc_neg: "x \<le> 0 \<Longrightarrow> trunc x = \<lceil>x\<rceil>"
  by (cases "x = 0") (auto simp: trunc_def)

lemma trunc_of_int [simp]: "trunc (of_int n) = n"
  by (simp add: trunc_def)

lemma trunc_percent:
  assumes "0 \<le> p" and "0 \<le> n"
  shows "trunc (of_int p / 100 * of_int n) = p * n div 100"
proof -
  have "of_int p / 100 * of_int n = real_of_int (p * n) / real_of_int 100" by simp
  moreover have "0 \<le> real_of_int p / 100 * real_of_int n" using assms by simp
  ultimately show ?thesis
    by (simp only: trunc_nonneg floor_divide_of_int_eq)
qed

lemma sdiv_nonneg: "0 \<le> a \<Longrightarrow> 0 < b \<Longrightarrow> a sdiv b = a div (b :: int)"
  by (cases "a = 0") (simp_all add: signed_divide_int_def)

lemma sdiv_of_nat: "int n sdiv numeral k = int (n div numeral k)"
  by (simp add: sdiv_nonneg zdiv_int)

section \<open>Counting loops\<close>

text \<open>
  \<open>for (int i = lo; i <= n; i++)\<close> with an \<open>unsigned\<close> bound: incrementing \<open>INT_MAX\<close> is
  undefined. \<open>for (unsigned i = lo; i <= n; i++)\<close>: at \<open>UINT_MAX\<close> the counter wraps to 0, the
  condition still holds, and the loop never ends.
\<close>

function int_loop :: "int \<Rightarrow> nat \<Rightarrow> (int \<Rightarrow> 's \<Rightarrow> 's res) \<Rightarrow> 's \<Rightarrow> 's res" where
  "int_loop i n f s =
     (if i \<le> int n
      then rbind (f i s) (\<lambda>s'. if i = 2147483647 then Inl SignedOverflow else int_loop (i + 1) n f s')
      else Inr s)"
  by pat_completeness auto
termination
  by (relation "measure (\<lambda>(i, n, f, s). nat (int n + 1 - i))") auto

declare int_loop.simps [simp del]

function uint_loop :: "nat \<Rightarrow> nat \<Rightarrow> (nat \<Rightarrow> 's \<Rightarrow> 's res) \<Rightarrow> 's \<Rightarrow> 's res" where
  "uint_loop i n f s =
     (if i \<le> n
      then rbind (f i s) (\<lambda>s'. if i = 4294967295 then Inl Diverges else uint_loop (Suc i) n f s')
      else Inr s)"
  by pat_completeness auto
termination
  by (relation "measure (\<lambda>(i, n, f, s). Suc n - i)") auto

declare uint_loop.simps [simp del]

text \<open>Below those limits both loops run the body once for each value, in order.\<close>

lemma int_loop_eq_rfold:
  assumes "n < 2147483647"
  shows "int_loop i n f s = rfold f [i..int n] s"
  using assms
proof (induction i n f s rule: int_loop.induct)
  case (1 i n f s)
  show ?case
  proof (cases "i \<le> int n")
    case True
    then have "i \<noteq> 2147483647"
      using "1.prems" by auto
    with True 1 show ?thesis
      by (cases "f i s") (auto simp: int_loop.simps [of i n f s] upto.simps [of i])
  next
    case False
    then show ?thesis by (simp add: int_loop.simps [of i n f s])
  qed
qed

lemma uint_loop_eq_rfold:
  assumes "n < 4294967295"
  shows "uint_loop i n f s = rfold f [i..<Suc n] s"
  using assms
proof (induction i n f s rule: uint_loop.induct)
  case (1 i n f s)
  show ?case
  proof (cases "i \<le> n")
    case True
    then have i: "i \<noteq> 4294967295"
      using "1.prems" by auto
    from True have "[i..<Suc n] = i # [Suc i..<Suc n]"
      by (simp add: upt_rec [of i] del: upt_Suc)
    with True i 1 show ?thesis
      by (cases "f i s") (simp_all add: uint_loop.simps [of i n f s] del: upt_Suc)
  next
    case False
    then show ?thesis by (simp add: uint_loop.simps [of i n f s])
  qed
qed

text \<open>What a loop body keeps, both loops keep.\<close>

lemma uint_loop_invariant:
  assumes "\<And>i s t. P s \<Longrightarrow> f i s = Inr t \<Longrightarrow> P t" and "P s" and "uint_loop i n f s = Inr t"
  shows "P t"
  using assms
proof (induction i n f s rule: uint_loop.induct)
  case (1 i n f s)
  show ?case
  proof (cases "i \<le> n")
    case True
    with "1.prems"(3) obtain s' where s': "f i s = Inr s'" "i \<noteq> 4294967295" "uint_loop (Suc i) n f s' = Inr t"
      by (subst (asm) uint_loop.simps) (auto simp: rbind_eq_Inr split: if_splits)
    show ?thesis by (rule "1.IH" [OF True s'(2) "1.prems"(1) _ s'(3)]) (use "1.prems" s' in blast)+
  next
    case False
    with "1.prems" show ?thesis by (subst (asm) uint_loop.simps) simp
  qed
qed

section \<open>Decimal output\<close>

definition digit :: "nat \<Rightarrow> char" where
  "digit d = ''0123456789'' ! d"

fun show_nat :: "nat \<Rightarrow> string" where
  "show_nat n = (if n < 10 then [digit n] else show_nat (n div 10) @ [digit (n mod 10)])"

declare show_nat.simps [simp del]

definition show_int :: "int \<Rightarrow> string" where
  "show_int i = (if i < 0 then CHR ''-'' # show_nat (nat (- i)) else show_nat (nat i))"

definition digit_chars :: "char set" where
  "digit_chars = set ''0123456789''"

definition is_digit :: "char \<Rightarrow> bool" where
  "is_digit c \<longleftrightarrow> c \<in> digit_chars"

definition show_word :: "'w::len word \<Rightarrow> string" where
  "show_word w = show_nat (unat w)"

lemma digit_less_10: "d < 10 \<Longrightarrow> digit d \<in> digit_chars"
  unfolding digit_def digit_chars_def by (rule nth_mem) simp

lemma show_nat_digits: "set (show_nat n) \<subseteq> digit_chars"
proof (induction n rule: show_nat.induct)
  case (1 n)
  show ?case
  proof (cases "n < 10")
    case True
    with digit_less_10 show ?thesis by (subst show_nat.simps) simp
  next
    case False
    with 1 digit_less_10 [of "n mod 10"] show ?thesis by (subst show_nat.simps) simp
  qed
qed

lemma show_nat_nonempty [simp]: "show_nat n \<noteq> []"
  by (subst show_nat.simps) simp

lemma show_int_chars: "set (show_int i) \<subseteq> insert (CHR ''-'') digit_chars"
  using show_nat_digits [of "nat i"] show_nat_digits [of "nat (- i)"]
  by (auto simp: show_int_def)

lemma show_int_nonempty [simp]: "show_int i \<noteq> []"
  by (simp add: show_int_def)

text \<open>Punctuation never occurs in a printed number.\<close>

lemma punctuation_no_digit [simp]:
  "CHR '','' \<notin> digit_chars" "CHR ''/'' \<notin> digit_chars" "CHR '':'' \<notin> digit_chars"
  "CHR ''?'' \<notin> digit_chars" "CHR ''-'' \<notin> digit_chars"
  by (simp_all add: digit_chars_def)

abbreviation commas :: "string \<Rightarrow> nat" where
  "commas line \<equiv> count_list line (CHR '','')"

lemma count_comma_show_nat [simp]: "count_list (show_nat n) (CHR '','') = 0"
  using show_nat_digits [of n] punctuation_no_digit(1) unfolding count_list_0_iff by blast

lemma count_comma_show_int [simp]: "count_list (show_int i) (CHR '','') = 0"
proof -
  have "CHR '','' \<notin> insert (CHR ''-'') digit_chars" by simp
  with show_int_chars [of i] show ?thesis unfolding count_list_0_iff by blast
qed

text \<open>Reading back.\<close>

definition digit_val :: "char \<Rightarrow> nat" where
  "digit_val c = length (takeWhile (\<lambda>d. d \<noteq> c) ''0123456789'')"

definition read_nat :: "string \<Rightarrow> nat" where
  "read_nat ds = foldl (\<lambda>n c. n * 10 + digit_val c) 0 ds"

lemma less_10_cases: "d < 10 \<Longrightarrow> d \<in> {0, 1, 2, 3, 4, 5, 6, 7, 8, 9 :: nat}"
  by auto

lemma digit_val_digit: "d < 10 \<Longrightarrow> digit_val (digit d) = d"
  by (drule less_10_cases) (auto simp: digit_val_def digit_def)

lemma read_nat_snoc: "read_nat (ds @ [c]) = read_nat ds * 10 + digit_val c"
  by (simp add: read_nat_def)

lemma read_show_nat: "read_nat (show_nat n) = n"
proof (induction n rule: show_nat.induct)
  case (1 n)
  show ?case
  proof (cases "n < 10")
    case True
    then show ?thesis by (simp add: show_nat.simps [of n] read_nat_def digit_val_digit)
  next
    case False
    then show ?thesis
      using 1 digit_val_digit [of "n mod 10"]
      by (simp add: show_nat.simps [of n] read_nat_snoc)
  qed
qed

lemma show_nat_inject: "show_nat m = show_nat n \<longleftrightarrow> m = n"
  by (metis read_show_nat)

fun join :: "string \<Rightarrow> string list \<Rightarrow> string" where
  "join sep [] = []"
| "join sep [x] = x"
| "join sep (x # y # xs) = x @ sep @ join sep (y # xs)"

lemma join_snoc: "xs \<noteq> [] \<Longrightarrow> join sep (xs @ [x]) = join sep xs @ sep @ x"
  by (induction sep xs rule: join.induct) auto

section \<open>Lists\<close>

lemma sorted_count_less:
  assumes "sorted xs" and "k < length xs"
  shows "length (filter (\<lambda>y. y < xs ! k) xs) \<le> k"
proof -
  have "\<forall>y \<in> set (drop k xs). \<not> y < xs ! k"
    using assms by (auto simp: in_set_conv_nth not_less intro!: sorted_nth_mono)
  then have "filter (\<lambda>y. y < xs ! k) (drop k xs) = []" by simp
  then have "filter (\<lambda>y. y < xs ! k) (take k xs @ drop k xs) = filter (\<lambda>y. y < xs ! k) (take k xs)"
    by (simp only: filter_append append_Nil2)
  then have "filter (\<lambda>y. y < xs ! k) xs = filter (\<lambda>y. y < xs ! k) (take k xs)" by simp
  also have "length \<dots> \<le> length (take k xs)" by (rule length_filter_le)
  finally show ?thesis by simp
qed

lemma sorted_nth_0: "sorted xs \<Longrightarrow> xs \<noteq> [] \<Longrightarrow> xs ! 0 = Min (set xs)" for xs :: "'a::linorder list"
  by (cases xs) (auto intro!: Min_insert2 [symmetric])

lemma foldl_max: "foldl max x xs = Max (set (x # xs))" for x :: "'a::linorder"
proof (induction xs arbitrary: x)
  case (Cons y ys)
  have "Max (insert (max x y) (set ys)) = Max (insert x (insert y (set ys)))"
    by (cases "ys = []") (simp_all add: max.assoc)
  with Cons show ?case by simp
qed simp

lemma mset_update_subset:
  assumes "mset xs \<subseteq># H" and "i < length xs"
  shows "mset (xs[i := v]) \<subseteq># add_mset v H"
proof -
  have "mset (xs[i := v]) = add_mset v (mset xs - {#xs ! i#})"
    using assms(2) by (rule mset_update)
  moreover have "mset xs - {#xs ! i#} \<subseteq># H"
    using assms(1) by (meson diff_subset_eq_self subset_mset.order_trans)
  ultimately show ?thesis by simp
qed

lemma full_submset: "A \<subseteq># B \<Longrightarrow> size A = size B \<Longrightarrow> A = B"
  using mset_subset_size [of A B] by (auto simp: subset_mset.less_le)

end
