(* ===== verification/Fairness.thy ===== *)
theory Fairness
  imports Main
begin

text \<open>
  Infinite runs of a system of threads under a scheduler, and the rule by which the development
  shows that something happens in every fair run: some work never grows, and while it is not done
  some thread, whose turn is bound to come, can bring its end nearer, whatever the others do.
\<close>

section \<open>Runs\<close>

text \<open>
  \<open>step a s\<close> is the step of thread \<open>a\<close>, \<^const>\<open>None\<close> while it is blocked. A scheduler names the thread
  whose turn it is at every moment; the turn of a blocked thread passes without effect.
\<close>

primrec run :: "('a \<Rightarrow> 's \<Rightarrow> 's option) \<Rightarrow> (nat \<Rightarrow> 'a) \<Rightarrow> 's \<Rightarrow> nat \<Rightarrow> 's" where
  "run step sched s 0 = s"
| "run step sched s (Suc k) =
     (case step (sched k) (run step sched s k) of None \<Rightarrow> run step sched s k | Some s' \<Rightarrow> s')"

text \<open>The scheduler is fair when the turn of every thread comes again and again.\<close>

definition fair :: "'a set \<Rightarrow> (nat \<Rightarrow> 'a) \<Rightarrow> bool" where
  "fair actors sched \<longleftrightarrow> (\<forall>a \<in> actors. \<forall>k. \<exists>j\<ge>k. sched j = a)"

lemma fairD: "fair actors sched \<Longrightarrow> a \<in> actors \<Longrightarrow> \<exists>j\<ge>k. sched j = a"
  by (auto simp: fair_def)

text \<open>What a step keeps, the run keeps from any moment on.\<close>

lemma run_keeps:
  assumes "P (run step sched s k)" and "\<And>a s s'. step a s = Some s' \<Longrightarrow> P s \<Longrightarrow> P s'" and "k \<le> j"
  shows "P (run step sched s j)"
  using assms(3)
proof (induction j rule: dec_induct)
  case base
  show ?case by (rule assms(1))
next
  case (step j)
  then show ?case by (auto split: option.splits intro: assms(2))
qed

text \<open>The first turn of a thread from a moment on.\<close>

lemma first_turn:
  assumes "fair actors sched" and "a \<in> actors"
  obtains j where "k \<le> j" "sched j = a" "\<And>i. k \<le> i \<Longrightarrow> i < j \<Longrightarrow> sched i \<noteq> a"
proof -
  let ?P = "\<lambda>j. k \<le> j \<and> sched j = a"
  have "\<exists>j. ?P j" using fairD [OF assms] by blast
  then have "?P (LEAST j. ?P j)" by (rule LeastI_ex)
  moreover have "sched i \<noteq> a" if "k \<le> i" "i < (LEAST j. ?P j)" for i
    using not_less_Least [OF that(2)] that(1) by blast
  ultimately show thesis using that by blast
qed

section \<open>Work that is bound to be done\<close>

text \<open>
  \<open>work\<close> is what is left to do; a thread is \<open>helpful\<close> when its own steps, at most \<open>dist\<close> of them more,
  lead to less work, and the steps of the others leave it helpful unless they make the work less
  themselves.
\<close>

locale ranked_system =
  fixes step :: "'a \<Rightarrow> 's \<Rightarrow> 's option" and actors :: "'a set" and inv :: "'s \<Rightarrow> bool"
    and work :: "'s \<Rightarrow> nat" and helpful :: "'a \<Rightarrow> 's \<Rightarrow> bool" and dist :: "'a \<Rightarrow> 's \<Rightarrow> nat"
  assumes inv_step: "step a s = Some s' \<Longrightarrow> inv s \<Longrightarrow> inv s'"
    and some_helpful: "inv s \<Longrightarrow> 0 < work s \<Longrightarrow> \<exists>a \<in> actors. helpful a s"
    and helpful_moves: "inv s \<Longrightarrow> helpful a s \<Longrightarrow> step a s \<noteq> None"
    and own_step: "inv s \<Longrightarrow> helpful a s \<Longrightarrow> step a s = Some s' \<Longrightarrow>
      work s' < work s \<or> work s' = work s \<and> helpful a s' \<and> dist a s' < dist a s"
    and other_step: "inv s \<Longrightarrow> helpful a s \<Longrightarrow> b \<noteq> a \<Longrightarrow> step b s = Some s' \<Longrightarrow>
      work s' < work s \<or> work s' = work s \<and> helpful a s' \<and> dist a s' \<le> dist a s"
    and done_step: "inv s \<Longrightarrow> work s = 0 \<Longrightarrow> step a s = Some s' \<Longrightarrow> work s' = 0"
begin

lemma inv_run: "inv (run step sched s k) \<Longrightarrow> k \<le> j \<Longrightarrow> inv (run step sched s j)"
  by (rule run_keeps [where P = inv]) (auto intro: inv_step)

lemma done_run:
  assumes "inv (run step sched s k)" and "work (run step sched s k) = 0" and "k \<le> j"
  shows "work (run step sched s j) = 0"
proof -
  have "inv (run step sched s j) \<and> work (run step sched s j) = 0"
    by (rule run_keeps [where P = "\<lambda>s. inv s \<and> work s = 0", of step sched s k])
      (use assms in \<open>auto intro: inv_step done_step\<close>)
  then show ?thesis by blast
qed

text \<open>Until its turn comes a helpful thread stays helpful, or the work has become less.\<close>

lemma helpful_waits:
  assumes inv: "inv (run step sched s k)" and helps: "helpful a (run step sched s k)"
    and no_turn: "\<And>i. k \<le> i \<Longrightarrow> i < j \<Longrightarrow> sched i \<noteq> a" and "k \<le> j"
  shows "(\<exists>i\<ge>k. work (run step sched s i) < work (run step sched s k)) \<or>
    work (run step sched s j) = work (run step sched s k) \<and> helpful a (run step sched s j) \<and>
    dist a (run step sched s j) \<le> dist a (run step sched s k)"
  using assms(4) no_turn
proof (induction j rule: dec_induct)
  case base
  show ?case using helps by simp
next
  case (step j)
  let ?s = "run step sched s j"
  have "(\<exists>i\<ge>k. work (run step sched s i) < work (run step sched s k)) \<or>
    work ?s = work (run step sched s k) \<and> helpful a ?s \<and> dist a ?s \<le> dist a (run step sched s k)"
    using step.IH step.prems by simp
  then show ?case
  proof
    assume same: "work ?s = work (run step sched s k) \<and> helpful a ?s \<and> dist a ?s \<le> dist a (run step sched s k)"
    show ?thesis
    proof (cases "step (sched j) ?s")
      case None
      with same show ?thesis by simp
    next
      case (Some s')
      have "sched j \<noteq> a" using step.prems step.hyps by simp
      from other_step [OF inv_run [OF inv step.hyps(1)] _ this Some] same Some
      have "work (run step sched s (Suc j)) < work ?s \<or>
        work (run step sched s (Suc j)) = work ?s \<and> helpful a (run step sched s (Suc j)) \<and>
        dist a (run step sched s (Suc j)) \<le> dist a ?s" by simp
      then show ?thesis
      proof
        assume "work (run step sched s (Suc j)) < work ?s"
        with same have "work (run step sched s (Suc j)) < work (run step sched s k)" by simp
        moreover have "k \<le> Suc j" using step.hyps(1) by simp
        ultimately show ?thesis by blast
      qed (use same in auto)
    qed
  qed (rule disjI1)
qed

text \<open>The helpful thread makes the work less.\<close>

lemma helpful_helps:
  assumes fair: "fair actors sched" and a: "a \<in> actors"
    and "inv (run step sched s k)" and "helpful a (run step sched s k)"
  shows "\<exists>i\<ge>k. work (run step sched s i) < work (run step sched s k)"
  using assms(3,4)
proof (induction "dist a (run step sched s k)" arbitrary: k rule: less_induct)
  case less
  obtain j where j: "k \<le> j" "sched j = a" "\<And>i. k \<le> i \<Longrightarrow> i < j \<Longrightarrow> sched i \<noteq> a"
    using first_turn [OF fair a] by blast
  let ?s = "run step sched s j"
  from helpful_waits [OF less.prems j(3) j(1)] show ?case
  proof
    assume same: "work ?s = work (run step sched s k) \<and> helpful a ?s \<and> dist a ?s \<le> dist a (run step sched s k)"
    have inv: "inv ?s" using inv_run [OF less.prems(1) j(1)] .
    obtain s' where s': "step a ?s = Some s'" using helpful_moves [OF inv] same by blast
    then have next_state: "run step sched s (Suc j) = s'" using j(2) by simp
    from own_step [OF inv _ s'] same have
      "work s' < work ?s \<or> work s' = work ?s \<and> helpful a s' \<and> dist a s' < dist a ?s" by blast
    then show ?thesis
    proof
      assume "work s' < work ?s"
      with same next_state have "work (run step sched s (Suc j)) < work (run step sched s k)" by simp
      moreover have "k \<le> Suc j" using j(1) by simp
      ultimately show ?thesis by blast
    next
      assume closer: "work s' = work ?s \<and> helpful a s' \<and> dist a s' < dist a ?s"
      have "inv s'" using inv_step [OF s' inv] .
      with less.hyps [of "Suc j"] closer same next_state
      obtain i where i: "Suc j \<le> i" "work (run step sched s i) < work s'" by auto
      have "k \<le> i" using j(1) i(1) by simp
      moreover have "work (run step sched s i) < work (run step sched s k)" using i(2) closer same by simp
      ultimately show ?thesis by blast
    qed
  qed
qed

theorem work_gets_done:
  assumes "fair actors sched" and "inv (run step sched s k)"
  shows "\<exists>i\<ge>k. \<forall>j\<ge>i. inv (run step sched s j) \<and> work (run step sched s j) = 0"
  using assms(2)
proof (induction "work (run step sched s k)" arbitrary: k rule: less_induct)
  case less
  show ?case
  proof (cases "work (run step sched s k) = 0")
    case True
    with less.prems show ?thesis by (blast intro: inv_run done_run)
  next
    case False
    then obtain a where "a \<in> actors" "helpful a (run step sched s k)"
      using some_helpful less.prems by blast
    from helpful_helps [OF assms(1) this(1) less.prems this(2)] obtain i
      where i: "i \<ge> k" "work (run step sched s i) < work (run step sched s k)" by blast
    from less.hyps [OF i(2) inv_run [OF less.prems i(1)]] i(1) show ?thesis by (meson le_trans)
  qed
qed

end

end
