(* ===== verification/Message.thy ===== *)
theory Message
  imports Prelude
begin

text \<open>
  \<open>Message.hpp\<close> and \<open>Message.cpp\<close>: the operation codes, their labels, and the two message
  classes that travel through the queues.
\<close>

section \<open>Operation codes\<close>

datatype message_type =
    Insert
  | Delete
  | InsertMetric
  | DeleteDevice
  | Select_K1
  | Select_K2
  | Select_K3

text \<open>The enumerators count from 0; \<open>messageEND\<close> is the number of the others.\<close>

fun op_ord :: "message_type \<Rightarrow> nat" where
  "op_ord Insert = 0"
| "op_ord Delete = 1"
| "op_ord InsertMetric = 2"
| "op_ord DeleteDevice = 3"
| "op_ord Select_K1 = 4"
| "op_ord Select_K2 = 5"
| "op_ord Select_K3 = 6"

definition messageEND :: nat where
  "messageEND = 7"

text \<open>\<open>static_cast<MessageType>(i)\<close>; a value that names no enumerator is \<^const>\<open>None\<close>.\<close>

fun op_of :: "nat \<Rightarrow> message_type option" where
  "op_of i =
     (if i = 0 then Some Insert else if i = 1 then Some Delete
      else if i = 2 then Some InsertMetric else if i = 3 then Some DeleteDevice
      else if i = 4 then Some Select_K1 else if i = 5 then Some Select_K2
      else if i = 6 then Some Select_K3 else None)"

lemma op_of_ord [simp]: "op_of (op_ord x) = Some x"
  by (cases x) simp_all

lemma op_ord_less [simp]: "op_ord x < messageEND"
  by (cases x) (simp_all add: messageEND_def)

lemma op_ord_inject [simp]: "op_ord x = op_ord y \<longleftrightarrow> x = y"
  by (metis op_of_ord option.inject)

text \<open>C++ compares enumerators by their values.\<close>

instantiation message_type :: linorder
begin

definition less_eq_message_type :: "message_type \<Rightarrow> message_type \<Rightarrow> bool" where
  "less_eq_message_type x y \<longleftrightarrow> op_ord x \<le> op_ord y"

definition less_message_type :: "message_type \<Rightarrow> message_type \<Rightarrow> bool" where
  "less_message_type x y \<longleftrightarrow> op_ord x < op_ord y"

instance
  by standard (auto simp: less_eq_message_type_def less_message_type_def)

end

text \<open>
  \<open>sizeof(MessageType)\<close>, which \<open>LatencyStats\<close> and \<open>SampledStats\<close> use as the number of
  operation types. The underlying type of the enumeration is a 32-bit integer (its values fit
  \<open>int\<close>), so this is 4, and not the 7 of \<open>messageEND\<close>.
\<close>

definition MAX_OPTYPES :: nat where
  "MAX_OPTYPES = 4"

section \<open>Labels\<close>

definition messageTypeLabel :: "string list" where
  "messageTypeLabel =
     [''Insert'', ''Delete'', ''InsertMetric'', ''DeleteDevice'',
      ''Select_K1'', ''Select_K2'', ''Select_K3'']"

definition label_of :: "message_type \<Rightarrow> string" where
  "label_of x = messageTypeLabel ! op_ord x"

lemma length_labels [simp]: "length messageTypeLabel = messageEND"
  by (simp add: messageTypeLabel_def messageEND_def)

lemma label_of_simps [simp]:
  "label_of Insert = ''Insert''" "label_of Delete = ''Delete''"
  "label_of InsertMetric = ''InsertMetric''" "label_of DeleteDevice = ''DeleteDevice''"
  "label_of Select_K1 = ''Select_K1''" "label_of Select_K2 = ''Select_K2''"
  "label_of Select_K3 = ''Select_K3''"
  by (simp_all add: label_of_def messageTypeLabel_def)

lemma commas_label [simp]: "commas (label_of x) = 0"
  by (cases x) simp_all

section \<open>Messages\<close>

record message =
  op :: message_type
  ts :: u32
  device_id :: u32
  table_id :: u32

definition Message :: "message_type \<Rightarrow> u32 \<Rightarrow> u32 \<Rightarrow> u32 \<Rightarrow> message" where
  "Message o' t d tab = \<lparr>op = o', ts = t, device_id = d, table_id = tab\<rparr>"

definition default_message :: message where
  "default_message = \<lparr>op = Insert, ts = 0, device_id = 0, table_id = 0\<rparr>"

definition getMessageTypeLabel :: "message \<Rightarrow> string res" where
  "getMessageTypeLabel m = arr_get messageTypeLabel (int (op_ord (op m)))"

record stat_message =
  sm_op :: message_type
  time_us :: u32
  sm_cnt :: u32

definition StatMessage :: "message_type \<Rightarrow> u32 \<Rightarrow> u32 \<Rightarrow> stat_message" where
  "StatMessage o' t c = \<lparr>sm_op = o', time_us = t, sm_cnt = c\<rparr>"

lemma message_sels [simp]:
  "op (Message o' t d tab) = o'" "ts (Message o' t d tab) = t"
  "device_id (Message o' t d tab) = d" "table_id (Message o' t d tab) = tab"
  by (simp_all add: Message_def)

lemma stat_message_sels [simp]:
  "sm_op (StatMessage o' t c) = o'" "time_us (StatMessage o' t c) = t"
  "sm_cnt (StatMessage o' t c) = c"
  by (simp_all add: StatMessage_def)

lemma getMessageTypeLabel_eq: "getMessageTypeLabel m = Inr (label_of (op m))"
  by (simp add: getMessageTypeLabel_def label_of_def arr_get_ok)

lemma label_of_inject: "label_of x = label_of y \<longleftrightarrow> x = y"
  by (cases x; cases y) simp_all

end
