(* ===== verification/RunningMean.thy ===== *)
theory RunningMean
  imports Prelude
begin

text \<open>
  \<open>RunningMean.hpp\<close> and \<open>RunningMean.cpp\<close>: a mean kept as the first sample plus the mean of the
  differences from it. The locale states what its clients (\<open>SampledStats::displayStats\<close>,
  \<open>LatencyStats::calcMeans\<close>) rely on; the class provides it.
\<close>

section \<open>The contract of an incremental mean\<close>

locale mean_acc =
  fixes new :: "real \<Rightarrow> 'm"
    and add :: "'m \<Rightarrow> real \<Rightarrow> 'm"
    and mean_of :: "'m \<Rightarrow> real"
    and count_of :: "'m \<Rightarrow> int"
  assumes count_new: "count_of (new v) = 1"
    and mean_new: "mean_of (new v) = v"
    and count_add: "0 < count_of m \<Longrightarrow> count_of (add m v) = count_of m + 1"
    and mean_add: "0 < count_of m \<Longrightarrow>
      mean_of (add m v) * of_int (count_of m + 1) = mean_of m * of_int (count_of m) + v"
begin

lemma count_fold: "0 < count_of m \<Longrightarrow> count_of (foldl add m xs) = count_of m + int (length xs)"
  by (induction xs arbitrary: m) (simp_all add: count_add)

lemma total_fold:
  "0 < count_of m \<Longrightarrow>
   mean_of (foldl add m xs) * of_int (count_of (foldl add m xs)) =
   mean_of m * of_int (count_of m) + sum_list xs"
proof (induction xs arbitrary: m)
  case (Cons x xs)
  from Cons.prems have pos: "0 < count_of (add m x)"
    by (simp add: count_add)
  have "mean_of (add m x) * of_int (count_of (add m x)) = mean_of m * of_int (count_of m) + x"
    using mean_add [OF Cons.prems, of x] by (simp add: count_add [OF Cons.prems])
  with Cons.IH [OF pos] show ?case by simp
qed simp

text \<open>After a first sample and any others, the mean is their arithmetic mean.\<close>

lemma mean_fold: "mean_of (foldl add (new v) xs) = sum_list (v # xs) / real (length (v # xs))"
proof -
  have "count_of (foldl add (new v) xs) = 1 + int (length xs)"
    by (simp add: count_fold count_new)
  then have n: "real_of_int (count_of (foldl add (new v) xs)) = 1 + real (length xs)"
    by simp
  have "mean_of (foldl add (new v) xs) * (1 + real (length xs)) = v + sum_list xs"
    using total_fold [of "new v" xs] unfolding n by (simp add: count_new mean_new)
  then show ?thesis by (simp add: nonzero_eq_divide_eq)
qed

end

section \<open>The class\<close>

record running_mean =
  rm_n :: int
  rm_v1 :: real
  rm_running :: real

definition RunningMean :: "real \<Rightarrow> running_mean" where
  "RunningMean v = \<lparr>rm_n = 1, rm_v1 = v, rm_running = 0\<rparr>"

definition addSample :: "running_mean \<Rightarrow> real \<Rightarrow> running_mean" where
  "addSample r vi = r\<lparr>rm_n := rm_n r + 1, rm_running := rm_running r + (vi - rm_v1 r)\<rparr>"

definition mean :: "running_mean \<Rightarrow> real" where
  "mean r = rm_v1 r + rm_running r / of_int (rm_n r)"

definition samples_of :: "running_mean \<Rightarrow> int" where
  "samples_of r = rm_n r"

lemmas rm_defs = RunningMean_def addSample_def mean_def samples_of_def

interpretation rm: mean_acc RunningMean addSample mean samples_of
  by unfold_locales (simp_all add: rm_defs field_simps)

text \<open>
  \<open>mean()\<close> after the constructor and any sequence of \<open>addSample\<close> calls is the arithmetic mean of all
  values, and \<open>samples()\<close> their number.
\<close>

lemma running_mean_correct:
  "mean (foldl addSample (RunningMean v) xs) = sum_list (v # xs) / real (length (v # xs)) \<and>
   samples_of (foldl addSample (RunningMean v) xs) = int (length (v # xs))"
  using rm.mean_fold [of v xs] rm.count_fold [of "RunningMean v" xs] by (simp add: rm.count_new)

end
