(* ===== verification/Config.thy ===== *)
theory Config
  imports Message
begin

text \<open>
  \<open>Config.hpp\<close>, \<open>Config.cpp\<close> and \<open>Logger.hpp\<close>: the global configuration with its defaults, the log
  levels, and the \<open>log(level)\<close> statement.
\<close>

section \<open>Log levels and run modes\<close>

datatype loglevel =
    logFATAL
  | logERROR
  | logWARNING
  | logINFO
  | logDEBUG
  | logTRACE

fun loglevel_ord :: "loglevel \<Rightarrow> nat" where
  "loglevel_ord logFATAL = 0"
| "loglevel_ord logERROR = 1"
| "loglevel_ord logWARNING = 2"
| "loglevel_ord logINFO = 3"
| "loglevel_ord logDEBUG = 4"
| "loglevel_ord logTRACE = 5"

lemma loglevel_ord_inject [simp]: "loglevel_ord x = loglevel_ord y \<longleftrightarrow> x = y"
  by (cases x; cases y) simp_all

instantiation loglevel :: linorder
begin

definition less_eq_loglevel :: "loglevel \<Rightarrow> loglevel \<Rightarrow> bool" where
  "less_eq_loglevel x y \<longleftrightarrow> loglevel_ord x \<le> loglevel_ord y"

definition less_loglevel :: "loglevel \<Rightarrow> loglevel \<Rightarrow> bool" where
  "less_loglevel x y \<longleftrightarrow> loglevel_ord x < loglevel_ord y"

instance
  by standard (auto simp: less_eq_loglevel_def less_loglevel_def)

end

definition loglevels :: "loglevel list" where
  "loglevels = [logFATAL, logERROR, logWARNING, logINFO, logDEBUG, logTRACE]"

fun loglevel_e_Label :: "loglevel \<Rightarrow> string" where
  "loglevel_e_Label logFATAL = ''FATAL''"
| "loglevel_e_Label logERROR = ''ERROR''"
| "loglevel_e_Label logWARNING = ''WARNING''"
| "loglevel_e_Label logINFO = ''INFO''"
| "loglevel_e_Label logDEBUG = ''DEBUG''"
| "loglevel_e_Label logTRACE = ''TRACE''"

datatype run_mode = PREPARE | RUN

section \<open>Constants\<close>

definition StartTimestamp :: u64 where "StartTimestamp = 946684800"
definition SecInDay :: u32 where "SecInDay = 24 * 60 * 60"
definition MaxMetrics :: int where "MaxMetrics = 1000"
definition MaxMetricsPerTs :: int where "MaxMetricsPerTs = 100"
definition MaxValue :: real where "MaxValue = 10000"
definition MaxCnt :: int where "MaxCnt = 60"

section \<open>The global configuration\<close>

record config =
  LoaderThreads :: u32
  LoadMins :: u32
  DBTables :: u32
  MaxDevices :: u32
  storageEngine :: string
  storageEngineExtra :: string
  preCreateStatement :: string
  connDb :: string
  connHost :: string
  connUser :: string
  connPass :: string
  runMode :: run_mode
  csvStatsFile :: string
  csvStreamingStatsFile :: string
  cfg_maxsamples :: int
  randomSeed :: u32
  displayFreq :: int
  processingComplete :: bool
  logLevel :: loglevel
  logFile :: string

text \<open>The constants of the header, and the variables with these as their initial values.\<close>

definition DEFAULT_DB :: string where "DEFAULT_DB = ''test''"
definition DEFAULT_HOST :: string where "DEFAULT_HOST = ''tcp://localhost''"
definition DEFAULT_USER :: string where "DEFAULT_USER = ''root''"
definition DEFAULT_PASS :: string where "DEFAULT_PASS = []"
definition DEFAULT_LOADERTHREADS :: u32 where "DEFAULT_LOADERTHREADS = 8"
definition DEFAULT_LOADMINS :: u32 where "DEFAULT_LOADMINS = 6 * 60"
definition DEFAULT_DBTABLES :: u32 where "DEFAULT_DBTABLES = 10"
definition DEFAULT_MAXDEVICES :: u32 where "DEFAULT_MAXDEVICES = 1000"
definition DEFAULT_STORAGE_ENGINE :: string where "DEFAULT_STORAGE_ENGINE = ''InnoDB''"
definition DEFAULT_MAXSAMPLES :: int where "DEFAULT_MAXSAMPLES = 10000"
definition DEFAULT_RANDOM_SEED :: u32 where "DEFAULT_RANDOM_SEED = 0"
definition DEFAULT_DISPLAY_FREQ :: int where "DEFAULT_DISPLAY_FREQ = 10"
definition DEFAULT_LOG_LEVEL :: loglevel where "DEFAULT_LOG_LEVEL = logINFO"
definition DEFAULT_LOG_FILE :: string where "DEFAULT_LOG_FILE = ''-''"

lemmas default_consts [simp] = DEFAULT_DB_def DEFAULT_HOST_def DEFAULT_USER_def DEFAULT_PASS_def
  DEFAULT_LOADERTHREADS_def DEFAULT_LOADMINS_def DEFAULT_DBTABLES_def DEFAULT_MAXDEVICES_def
  DEFAULT_STORAGE_ENGINE_def DEFAULT_MAXSAMPLES_def DEFAULT_RANDOM_SEED_def DEFAULT_DISPLAY_FREQ_def
  DEFAULT_LOG_LEVEL_def DEFAULT_LOG_FILE_def

definition default_config :: config where
  "default_config =
     \<lparr>LoaderThreads = DEFAULT_LOADERTHREADS, LoadMins = DEFAULT_LOADMINS, DBTables = DEFAULT_DBTABLES,
      MaxDevices = DEFAULT_MAXDEVICES, storageEngine = DEFAULT_STORAGE_ENGINE, storageEngineExtra = [],
      preCreateStatement = [], connDb = DEFAULT_DB, connHost = DEFAULT_HOST, connUser = DEFAULT_USER,
      connPass = DEFAULT_PASS, runMode = RUN, csvStatsFile = [], csvStreamingStatsFile = [],
      cfg_maxsamples = DEFAULT_MAXSAMPLES, randomSeed = DEFAULT_RANDOM_SEED, displayFreq = DEFAULT_DISPLAY_FREQ,
      processingComplete = False, logLevel = DEFAULT_LOG_LEVEL, logFile = DEFAULT_LOG_FILE\<rparr>"

section \<open>Logging\<close>

text \<open>
  \<open>logIt(level) << text\<close>: the constructor writes the label into a buffer, the destructor ends
  the line and appends the buffer to the log stream under the lock. The macro \<open>log(level)\<close>
  creates the object only when the level is not above \<open>Config::logLevel\<close>.
\<close>

definition logIt :: "loglevel \<Rightarrow> string \<Rightarrow> string \<Rightarrow> string" where
  "logIt lvl txt out = out @ loglevel_e_Label lvl @ '': '' @ txt @ [CHR 0x0A]"

definition log_stmt :: "config \<Rightarrow> loglevel \<Rightarrow> string \<Rightarrow> string \<Rightarrow> string" where
  "log_stmt cfg lvl txt out = (if lvl > logLevel cfg then out else logIt lvl txt out)"

lemma log_stmt_suppressed: "logLevel cfg < lvl \<Longrightarrow> log_stmt cfg lvl txt out = out"
  by (simp add: log_stmt_def)

lemma log_stmt_written:
  "lvl \<le> logLevel cfg \<Longrightarrow> log_stmt cfg lvl txt out = out @ loglevel_e_Label lvl @ '': '' @ txt @ [CHR 0x0A]"
  by (simp add: log_stmt_def logIt_def)

end
