(* ===== verification/TsQueue.thy ===== *)
theory TsQueue
  imports Prelude
begin

text \<open>
  \<open>tsqueue.hpp\<close>: the thread-safe queue. First its operations on the protected data, each run under
  the mutex and so atomic; then the monitor, in which threads block on the two condition
  variables \<open>data_cond\<close> and \<open>empty_cond\<close>. The locale \<open>fifo\<close> is what the queue promises to its
  users; its lemmas are about any sequence of operations.
\<close>

section \<open>The contract of a FIFO queue\<close>

datatype 'a queue_op = Enq 'a | Deq

fun enqueued :: "'a queue_op list \<Rightarrow> 'a list" where
  "enqueued [] = []"
| "enqueued (Enq v # ops) = v # enqueued ops"
| "enqueued (Deq # ops) = enqueued ops"

text \<open>A run of operations; a dequeue that finds nothing does not complete, and is skipped.\<close>

fun queue_run ::
  "('q \<Rightarrow> 'a \<Rightarrow> 'q) \<Rightarrow> ('q \<Rightarrow> ('a \<times> 'q) option) \<Rightarrow> 'a queue_op list \<Rightarrow> 'q \<Rightarrow> 'a list \<times> 'q" where
  "queue_run enq deq [] q = ([], q)"
| "queue_run enq deq (Enq v # ops) q = queue_run enq deq ops (enq q v)"
| "queue_run enq deq (Deq # ops) q =
     (case deq q of
        None \<Rightarrow> queue_run enq deq ops q
      | Some (v, q') \<Rightarrow> (let (vs, q'') = queue_run enq deq ops q' in (v # vs, q'')))"

locale fifo =
  fixes enq :: "'q \<Rightarrow> 'a \<Rightarrow> 'q"
    and deq :: "'q \<Rightarrow> ('a \<times> 'q) option"
    and items :: "'q \<Rightarrow> 'a list"
  assumes items_enq: "items (enq q v) = items q @ [v]"
    and deq_None: "deq q = None \<longleftrightarrow> items q = []"
    and deq_Some: "deq q = Some (v, q') \<Longrightarrow> items q = v # items q'"
begin

lemma deq_nonempty: "items q = v # vs \<Longrightarrow> \<exists>q'. deq q = Some (v, q') \<and> items q' = vs"
proof (cases "deq q")
  case (Some p)
  obtain w q' where p: "p = (w, q')" by (cases p)
  assume "items q = v # vs"
  with Some p deq_Some [of q w q'] show ?thesis by simp
qed (simp add: deq_None)

text \<open>What has been dequeued, followed by what is still queued, is what was there and enqueued.\<close>

lemma queue_run_items:
  "fst (queue_run enq deq ops q) @ items (snd (queue_run enq deq ops q)) = items q @ enqueued ops"
proof (induction ops arbitrary: q)
  case (Cons x ops)
  show ?case
  proof (cases x)
    case (Enq v)
    with Cons.IH [of "enq q v"] show ?thesis by (simp add: items_enq)
  next
    case Deq
    show ?thesis
    proof (cases "deq q")
      case None
      with Deq Cons.IH [of q] show ?thesis by simp
    next
      case (Some p)
      obtain v q' where p: "p = (v, q')" by (cases p)
      obtain vs q'' where r: "queue_run enq deq ops q' = (vs, q'')"
        by (cases "queue_run enq deq ops q'")
      from Cons.IH [of q'] r have "vs @ items q'' = items q' @ enqueued ops" by simp
      with Deq Some p r deq_Some [of q v q'] show ?thesis by simp
    qed
  qed
qed simp

end

section \<open>The operations on the data\<close>

record 'a tsqueue =
  data_queue :: "'a list"

definition tsqueue_new :: "'a tsqueue" where
  "tsqueue_new = \<lparr>data_queue = []\<rparr>"

definition tsqueue_copy :: "'a tsqueue \<Rightarrow> 'a tsqueue" where
  "tsqueue_copy other = \<lparr>data_queue = data_queue other\<rparr>"

definition push :: "'a tsqueue \<Rightarrow> 'a \<Rightarrow> 'a tsqueue" where
  "push q v = q\<lparr>data_queue := data_queue q @ [v]\<rparr>"

text \<open>
  Both overloads of \<open>wait_and_pop\<close> block while the queue is empty (\<^const>\<open>None\<close>), and then take
  the front element.
\<close>

definition wait_and_pop :: "'a tsqueue \<Rightarrow> ('a \<times> 'a tsqueue) option" where
  "wait_and_pop q =
     (case data_queue q of [] \<Rightarrow> None | v # vs \<Rightarrow> Some (v, q\<lparr>data_queue := vs\<rparr>))"

text \<open>
  The \<open>shared_ptr\<close> overload of \<open>try_pop\<close>: a null pointer when the queue is empty. (The other
  overload tests \<open>data_queue.empty\<close> without calling it, and is never instantiated.)
\<close>

definition try_pop :: "'a tsqueue \<Rightarrow> 'a option \<times> 'a tsqueue" where
  "try_pop q =
     (case data_queue q of [] \<Rightarrow> (None, q) | v # vs \<Rightarrow> (Some v, q\<lparr>data_queue := vs\<rparr>))"

definition is_empty :: "'a tsqueue \<Rightarrow> bool" where
  "is_empty q \<longleftrightarrow> data_queue q = []"

text \<open>\<open>size()\<close> converts the \<open>size_t\<close> to \<open>unsigned int\<close>; \<open>wait_size\<close> compares the \<open>size_t\<close> itself.\<close>

definition tsqueue_size :: "'a tsqueue \<Rightarrow> u32" where
  "tsqueue_size q = word_of_nat (length (data_queue q))"

definition wait_size_ready :: "'a tsqueue \<Rightarrow> u32 \<Rightarrow> bool" where
  "wait_size_ready q sz \<longleftrightarrow> \<not> length (data_queue q) > unat sz"

definition wait_empty_ready :: "'a tsqueue \<Rightarrow> bool" where
  "wait_empty_ready q \<longleftrightarrow> data_queue q = []"

lemmas tsqueue_defs = tsqueue_new_def tsqueue_copy_def push_def wait_and_pop_def try_pop_def
  is_empty_def wait_size_ready_def wait_empty_ready_def

interpretation tsq: fifo push wait_and_pop data_queue
  by unfold_locales (auto simp: tsqueue_defs split: list.splits)

lemma try_pop_eq_wait_and_pop:
  "try_pop q = (case wait_and_pop q of None \<Rightarrow> (None, q) | Some (v, q') \<Rightarrow> (Some v, q'))"
  by (simp add: tsqueue_defs split: list.splits)

lemma wait_size_0: "wait_size_ready q 0 \<longleftrightarrow> wait_empty_ready q"
  by (simp add: tsqueue_defs)

lemma tsqueue_size_exact: "length (data_queue q) < 4294967296 \<Longrightarrow> unat (tsqueue_size q) = length (data_queue q)"
  by (simp add: tsqueue_size_def unat_of_nat)

text \<open>Any sequence of pushes and pops on a queue is first in, first out: the elements popped, followed
  by the elements left, are the elements that were queued followed by those pushed, in order. A pop
  blocks exactly when nothing is queued.\<close>

theorem tsqueue_fifo:
  "(let (popped, q') = queue_run push wait_and_pop ops q
    in popped @ data_queue q' = data_queue q @ enqueued ops) \<and>
   (wait_and_pop q = None \<longleftrightarrow> is_empty q)"
  using tsq.queue_run_items [of ops q] tsq.deq_None [of q] by (simp add: case_prod_beta is_empty_def)

end
