(* ===== verification/TsMonitor.thy ===== *)
theory TsMonitor
  imports TsQueue
begin

text \<open>
  \<open>tsqueue\<close> as a monitor: threads that block in \<open>wait_and_pop\<close> on \<open>data_cond\<close>, threads that block
  in \<open>wait_size\<close> or \<open>wait_empty\<close> on \<open>empty_cond\<close>, and the \<open>notify_one\<close> calls of \<open>push\<close> and of the
  pops. A step is what one thread does while it holds the mutex. A woken thread still has to get
  the mutex and test its predicate again, and it may also have been woken without a notification.
\<close>

section \<open>States and steps\<close>

record 'a monitor =
  mon_queue :: "'a tsqueue"
  data_waiting :: "nat list"
  data_woken :: "nat list"
  empty_waiting :: "(nat \<times> u32) list"
  empty_woken :: "(nat \<times> u32) list"

definition monitor_init :: "'a monitor" where
  "monitor_init = \<lparr>mon_queue = tsqueue_new, data_waiting = [], data_woken = [],
                   empty_waiting = [], empty_woken = []\<rparr>"

definition busy :: "'a monitor \<Rightarrow> nat \<Rightarrow> bool" where
  "busy s t \<longleftrightarrow> t \<in> set (data_waiting s) \<union> set (data_woken s)
                  \<union> fst ` set (empty_waiting s) \<union> fst ` set (empty_woken s)"

text \<open>\<open>notify_one\<close> wakes one of the waiting threads, whichever, or does nothing.\<close>

inductive notify_one :: "'w list \<Rightarrow> 'w list \<Rightarrow> 'w list \<Rightarrow> 'w list \<Rightarrow> bool" where
  nobody: "notify_one [] wk [] wk"
| somebody: "w \<in> set ws \<Longrightarrow> notify_one ws wk (remove1 w ws) (w # wk)"

inductive_cases notify_oneE: "notify_one ws wk ws' wk'"

text \<open>
  \<open>sizers\<close> are the threads that call \<open>wait_size\<close> or \<open>wait_empty\<close> (which is \<open>wait_size\<close> of 0 by
  \<open>wait_size_0\<close>).
\<close>

inductive mon_step :: "nat set \<Rightarrow> 'a monitor \<Rightarrow> 'a monitor \<Rightarrow> bool" for sizers where
  do_push: "notify_one (data_waiting s) (data_woken s) dw dk \<Longrightarrow>
    mon_step sizers s (s\<lparr>mon_queue := push (mon_queue s) v, data_waiting := dw, data_woken := dk\<rparr>)"
| pop_now: "\<not> busy s t \<Longrightarrow> wait_and_pop (mon_queue s) = Some (v, q') \<Longrightarrow>
    notify_one (empty_waiting s) (empty_woken s) ew ek \<Longrightarrow>
    mon_step sizers s (s\<lparr>mon_queue := q', empty_waiting := ew, empty_woken := ek\<rparr>)"
| pop_block: "\<not> busy s t \<Longrightarrow> wait_and_pop (mon_queue s) = None \<Longrightarrow>
    mon_step sizers s (s\<lparr>data_waiting := t # data_waiting s\<rparr>)"
| pop_resume: "t \<in> set (data_woken s) \<Longrightarrow> wait_and_pop (mon_queue s) = Some (v, q') \<Longrightarrow>
    notify_one (empty_waiting s) (empty_woken s) ew ek \<Longrightarrow>
    mon_step sizers s (s\<lparr>mon_queue := q', data_woken := remove1 t (data_woken s),
                         empty_waiting := ew, empty_woken := ek\<rparr>)"
| pop_again: "t \<in> set (data_woken s) \<Longrightarrow> wait_and_pop (mon_queue s) = None \<Longrightarrow>
    mon_step sizers s (s\<lparr>data_woken := remove1 t (data_woken s),
                         data_waiting := t # data_waiting s\<rparr>)"
| size_now: "t \<in> sizers \<Longrightarrow> \<not> busy s t \<Longrightarrow> wait_size_ready (mon_queue s) sz \<Longrightarrow> mon_step sizers s s"
| size_block: "t \<in> sizers \<Longrightarrow> \<not> busy s t \<Longrightarrow> \<not> wait_size_ready (mon_queue s) sz \<Longrightarrow>
    mon_step sizers s (s\<lparr>empty_waiting := (t, sz) # empty_waiting s\<rparr>)"
| size_resume: "(t, sz) \<in> set (empty_woken s) \<Longrightarrow> wait_size_ready (mon_queue s) sz \<Longrightarrow>
    mon_step sizers s (s\<lparr>empty_woken := remove1 (t, sz) (empty_woken s)\<rparr>)"
| size_again: "(t, sz) \<in> set (empty_woken s) \<Longrightarrow> \<not> wait_size_ready (mon_queue s) sz \<Longrightarrow>
    mon_step sizers s (s\<lparr>empty_woken := remove1 (t, sz) (empty_woken s),
                         empty_waiting := (t, sz) # empty_waiting s\<rparr>)"
| spurious_data: "t \<in> set (data_waiting s) \<Longrightarrow>
    mon_step sizers s (s\<lparr>data_waiting := remove1 t (data_waiting s), data_woken := t # data_woken s\<rparr>)"
| spurious_empty: "w \<in> set (empty_waiting s) \<Longrightarrow>
    mon_step sizers s (s\<lparr>empty_waiting := remove1 w (empty_waiting s), empty_woken := w # empty_woken s\<rparr>)"

inductive mon_reach :: "nat set \<Rightarrow> 'a monitor \<Rightarrow> bool" for sizers where
  mon_start: "mon_reach sizers monitor_init"
| mon_next: "mon_reach sizers s \<Longrightarrow> mon_step sizers s s' \<Longrightarrow> mon_reach sizers s'"

section \<open>Invariants\<close>

abbreviation queued :: "'a monitor \<Rightarrow> nat" where
  "queued s \<equiv> length (data_queue (mon_queue s))"

text \<open>
  While a thread sleeps on \<open>data_cond\<close>, every queued element has a woken thread on its way to it.
\<close>

definition data_inv :: "'a monitor \<Rightarrow> bool" where
  "data_inv s \<longleftrightarrow> (data_waiting s \<noteq> [] \<longrightarrow> queued s \<le> length (data_woken s))"

lemma wait_and_pop_cases:
  "wait_and_pop q = None \<longleftrightarrow> data_queue q = []"
  "wait_and_pop q = Some (v, q') \<Longrightarrow> length (data_queue q) = Suc (length (data_queue q'))"
  using tsq.deq_None [of q] tsq.deq_Some [of q v q'] by simp_all

lemma queued_push [simp]: "length (data_queue (push q v)) = Suc (length (data_queue q))"
  by (simp add: push_def)

lemma data_inv_step: "mon_step sizers s s' \<Longrightarrow> data_inv s \<Longrightarrow> data_inv s'"
proof (induction rule: mon_step.induct)
  case (do_push s dw dk v)
  then show ?case by (auto simp: data_inv_def elim!: notify_oneE)
next
  case (pop_resume t s v q' ew ek)
  then have "length (remove1 t (data_woken s)) = length (data_woken s) - 1"
    by (simp add: length_remove1)
  with pop_resume wait_and_pop_cases(2) [OF pop_resume.hyps(2)] show ?case
    by (auto simp: data_inv_def)
qed (auto simp: data_inv_def wait_and_pop_cases dest: wait_and_pop_cases(2))

lemma data_inv_reach: "mon_reach sizers s \<Longrightarrow> data_inv s"
  by (induction rule: mon_reach.induct)
    (auto simp: monitor_init_def data_inv_def intro: data_inv_step [unfolded data_inv_def, rule_format])

text \<open>
  With one thread that waits for the queue to shrink: it is on at most one of the two lists, and
  while it sleeps its condition is false.
\<close>

definition size_inv :: "nat \<Rightarrow> 'a monitor \<Rightarrow> bool" where
  "size_inv m s \<longleftrightarrow>
     fst ` set (empty_waiting s) \<union> fst ` set (empty_woken s) \<subseteq> {m} \<and>
     length (empty_waiting s) + length (empty_woken s) \<le> 1 \<and>
     (\<forall>(t, sz) \<in> set (empty_waiting s). unat sz < queued s)"

lemma size_inv_notify:
  assumes "notify_one ws wk ws' wk'" and "length ws + length wk \<le> 1"
  shows "ws' = [] \<and> length wk' \<le> 1 \<and> set wk' \<subseteq> set ws \<union> set wk"
  using assms
proof (cases rule: notify_one.cases)
  case (somebody w)
  with assms(2) have "ws = [w]" "wk = []"
    by (cases ws; auto)+
  with somebody show ?thesis by simp
qed auto

lemma size_inv_idle:
  assumes inv: "size_inv m s" and idle: "\<not> busy s m"
  shows "empty_waiting s = [] \<and> empty_woken s = []"
proof -
  have "fst ` set (empty_waiting s) \<subseteq> {m}" "m \<notin> fst ` set (empty_waiting s)"
    and "fst ` set (empty_woken s) \<subseteq> {m}" "m \<notin> fst ` set (empty_woken s)"
    using inv idle unfolding size_inv_def busy_def by simp_all
  then have "fst ` set (empty_waiting s) = {}" "fst ` set (empty_woken s) = {}"
    by (metis subset_singletonD singletonI)+
  then show ?thesis by simp
qed

text \<open>After a pop with its notification nobody sleeps any more.\<close>

lemma size_inv_pop:
  assumes "size_inv m s" and "notify_one (empty_waiting s) (empty_woken s) ew ek"
  shows "ew = [] \<and> length ek \<le> 1 \<and> fst ` set ek \<subseteq> {m}"
proof -
  from assms(1) have len: "length (empty_waiting s) + length (empty_woken s) \<le> 1"
    and sub: "fst ` (set (empty_waiting s) \<union> set (empty_woken s)) \<subseteq> {m}"
    by (simp_all add: size_inv_def image_Un)
  from size_inv_notify [OF assms(2) len]
  have ek: "ew = []" "length ek \<le> 1" "set ek \<subseteq> set (empty_waiting s) \<union> set (empty_woken s)"
    by simp_all
  from image_mono [OF ek(3), of fst] sub have "fst ` set ek \<subseteq> {m}"
    by (rule subset_trans)
  with ek show ?thesis by simp
qed

lemma size_inv_step: "mon_step {m} s s' \<Longrightarrow> size_inv m s \<Longrightarrow> size_inv m s'"
proof (induction rule: mon_step.induct)
  case (pop_now s t v q' ew ek)
  from size_inv_pop [OF pop_now.prems pop_now.hyps(3)] show ?case
    by (simp add: size_inv_def)
next
  case (pop_resume t s v q' ew ek)
  from size_inv_pop [OF pop_resume.prems pop_resume.hyps(3)] show ?case
    by (simp add: size_inv_def)
next
  case (size_block t s sz)
  then have "empty_waiting s = [] \<and> empty_woken s = []"
    by (auto dest: size_inv_idle)
  with size_block show ?case by (simp add: size_inv_def wait_size_ready_def)
next
  case (size_resume t sz s)
  then show ?case by (cases "empty_woken s") (auto simp: size_inv_def)
next
  case (size_again t sz s)
  then show ?case
    by (cases "empty_woken s") (auto simp: size_inv_def wait_size_ready_def)
next
  case (spurious_empty w s)
  then show ?case by (cases "empty_waiting s") (auto simp: size_inv_def)
next
  case (do_push s dw dk v)
  then show ?case by (auto simp: size_inv_def)
qed (simp_all add: size_inv_def)

lemma size_inv_reach: "mon_reach {m} s \<Longrightarrow> size_inv m s"
proof (induction rule: mon_reach.induct)
  case mon_start
  show ?case by (simp add: monitor_init_def size_inv_def)
next
  case (mon_next s s')
  then show ?case by (blast intro: size_inv_step)
qed

section \<open>Refinement of the queue\<close>




section \<open>Properties\<close>


text \<open>The states of the runs below, by their components.\<close>

abbreviation mon :: "'a list \<Rightarrow> nat list \<Rightarrow> nat list \<Rightarrow> (nat \<times> u32) list \<Rightarrow> (nat \<times> u32) list \<Rightarrow> 'a monitor" where
  "mon q dw dk ew ek \<equiv> \<lparr>mon_queue = \<lparr>data_queue = q\<rparr>, data_waiting = dw, data_woken = dk,
                         empty_waiting = ew, empty_woken = ek\<rparr>"

lemma mon_push:
  assumes "mon_reach S (mon q dw dk ew ek)" and "notify_one dw dk dw' dk'"
  shows "mon_reach S (mon (q @ [v]) dw' dk' ew ek)"
  using mon_next [OF assms(1) do_push [of "mon q dw dk ew ek" dw' dk' S v]] assms(2)
  by (simp add: push_def)

lemma mon_push_idle: "mon_reach S (mon q [] [] ew ek) \<Longrightarrow> mon_reach S (mon (q @ [v]) [] [] ew ek)"
  by (erule mon_push) (rule notify_one.nobody)

lemma mon_pop_block:
  assumes "mon_reach S (mon [] dw dk ew ek :: 'a monitor)" and "t \<notin> set dw \<union> set dk \<union> fst ` set ew \<union> fst ` set ek"
  shows "mon_reach S (mon [] (t # dw) dk ew ek :: 'a monitor)"
  using mon_next [OF assms(1) pop_block [of "mon [] dw dk ew ek" t S]] assms(2)
  by (simp add: wait_and_pop_def busy_def)

lemma mon_pop_now:
  assumes "mon_reach S (mon (v # q) dw dk ew ek)" and "t \<notin> set dw \<union> set dk \<union> fst ` set ew \<union> fst ` set ek"
    and "notify_one ew ek ew' ek'"
  shows "mon_reach S (mon q dw dk ew' ek')"
  using mon_next [OF assms(1) pop_now [of "mon (v # q) dw dk ew ek" t v "\<lparr>data_queue = q\<rparr>" ew' ek' S]] assms(2,3)
  by (simp add: wait_and_pop_def busy_def)

lemma mon_size_block:
  assumes "mon_reach S (mon q dw dk ew ek)" and "t \<notin> set dw \<union> set dk \<union> fst ` set ew \<union> fst ` set ek"
    and "t \<in> S" and "unat sz < length q"
  shows "mon_reach S (mon q dw dk ((t, sz) # ew) ek)"
  using mon_next [OF assms(1) size_block [of t S "mon q dw dk ew ek" sz]] assms(2-4)
  by (simp add: busy_def wait_size_ready_def)

lemma mon_size_resume:
  assumes "mon_reach S (mon q dw dk ew ((t, sz) # ek))" and "length q \<le> unat sz"
  shows "mon_reach S (mon q dw dk ew ek)"
  using mon_next [OF assms(1) size_resume [of t sz "mon q dw dk ew ((t, sz) # ek)" S]] assms(2)
  by (simp add: wait_size_ready_def)

lemma mon_reach_init: "mon_reach S (mon [] [] [] [] [])"
  using mon_start [of S] by (simp add: monitor_init_def tsqueue_new_def)

text \<open>C22: No wake-up for \<open>wait_and_pop\<close> is lost: in every reachable state of the monitor, with any number
  of threads, spurious wake-ups included, if elements are queued while a thread sleeps on
  \<open>data_cond\<close>, then at least as many threads as there are elements are woken and on their way, and
  each of them can take an element.\<close>

theorem no_lost_pop_wakeup:
  assumes "mon_reach sizers s" and "data_waiting s \<noteq> []" and "\<not> is_empty (mon_queue s)"
  shows "queued s \<le> length (data_woken s) \<and> data_woken s \<noteq> [] \<and>
    (\<forall>t \<in> set (data_woken s). \<exists>s'. mon_step sizers s s' \<and>
       data_woken s' = remove1 t (data_woken s) \<and> Suc (queued s') = queued s)"
proof -
  from data_inv_reach [OF assms(1)] assms(2) have le: "queued s \<le> length (data_woken s)"
    by (simp add: data_inv_def)
  with assms(3) have ne: "data_woken s \<noteq> []" by (auto simp: is_empty_def)
  from assms(3) obtain v q' where q: "wait_and_pop (mon_queue s) = Some (v, q')"
    using tsq.deq_None [of "mon_queue s"] by (cases "wait_and_pop (mon_queue s)") (auto simp: is_empty_def)
  obtain ew ek where n: "notify_one (empty_waiting s) (empty_woken s) ew ek"
  proof (cases "empty_waiting s")
    case Nil
    show thesis by (rule that [of "[]" "empty_woken s"]) (simp add: Nil notify_one.nobody)
  next
    case (Cons w ws)
    show thesis by (rule that, rule notify_one.somebody [of w]) (simp add: Cons)
  qed
  have "mon_step sizers s (s\<lparr>mon_queue := q', data_woken := remove1 t (data_woken s),
                             empty_waiting := ew, empty_woken := ek\<rparr>)" if "t \<in> set (data_woken s)" for t
    using pop_resume [OF that q n] .
  moreover have "Suc (length (data_queue q')) = queued s"
    using wait_and_pop_cases(2) [OF q] by simp
  ultimately show ?thesis using le ne by fastforce
qed

lemma two_poppers_reach: "mon_reach {} (mon [5] [1] [2] [] [] :: nat monitor)"
proof -
  have "mon_reach {} (mon [] [2, 1] [] [] [] :: nat monitor)"
    by (intro mon_pop_block mon_reach_init) simp_all
  from mon_push [OF this, of "[1]" "[2]" 5] notify_one.somebody [of "2 :: nat" "[2, 1]" "[]"]
  show ?thesis by simp
qed


lemma no_lost_pop_wakeup_witness:
  "\<exists>s'. mon_step {} (mon [5 :: nat] [1] [2] [] []) s' \<and> data_woken s' = [] \<and> queued s' = 0"
  using no_lost_pop_wakeup [OF two_poppers_reach] by (auto simp: is_empty_def)

text \<open>C23: With a single thread that calls \<open>wait_size\<close> and \<open>wait_empty\<close>, as in this program, no wake-up
  for it is lost: whenever it sleeps on \<open>empty_cond\<close>, the queue is still longer than it waits for.\<close>

theorem size_waiter_not_lost:
  assumes "mon_reach {m} s" and "(t, sz) \<in> set (empty_waiting s)"
  shows "t = m \<and> \<not> wait_size_ready (mon_queue s) sz"
proof -
  from size_inv_reach [OF assms(1)] have "size_inv m s" .
  moreover from this assms(2) have "t \<in> {m}" by (force simp: size_inv_def)
  ultimately show ?thesis using assms(2) by (auto simp: size_inv_def wait_size_ready_def)
qed

lemma one_sizer_reach: "mon_reach {0} (mon [5, 6] [] [] [(0, 1)] [] :: nat monitor)"
proof -
  have "mon_reach {0} (mon ([] @ [5]) [] [] [] [] :: nat monitor)"
    by (intro mon_push_idle mon_reach_init)
  then have "mon_reach {0} (mon ([5] @ [6]) [] [] [] [] :: nat monitor)"
    by (intro mon_push_idle) simp
  then show ?thesis by (intro mon_size_block) simp_all
qed

lemma size_waiter_not_lost_witness: "\<not> wait_size_ready (mon_queue (mon [5 :: nat, 6] [] [] [(0, 1)] [])) 1"
  using size_waiter_not_lost [OF one_sizer_reach, of 0 1] by simp

text \<open>That needs the single caller: with two threads in \<open>wait_empty\<close> the \<open>notify_one\<close> of the last pop
  reaches one of them only, and the other sleeps on although the queue is empty and no notification
  is on its way.\<close>

theorem two_size_waiters_lose_one:
  "mon_reach {1, 2} (mon [] [] [] [(1, 0)] [] :: nat monitor) \<and>
   wait_size_ready (mon_queue (mon [] [] [] [(1, 0)] [] :: nat monitor)) 0"
proof -
  have "mon_reach {1, 2} (mon ([] @ [5]) [] [] [] [] :: nat monitor)"
    by (intro mon_push_idle mon_reach_init)
  then have "mon_reach {1, 2} (mon [5] [] [] [(1, 0)] [] :: nat monitor)"
    by (intro mon_size_block) simp_all
  then have "mon_reach {1, 2} (mon [5] [] [] [(2, 0), (1, 0)] [] :: nat monitor)"
    by (rule mon_size_block) simp_all
  from mon_pop_now [OF this, of 3 "[(1, 0)]" "[(2, 0)]"] notify_one.somebody [of "(2 :: nat, 0 :: u32)" "[(2, 0), (1, 0)]" "[]"]
  have "mon_reach {1, 2} (mon [] [] [] [(1, 0)] [(2, 0)] :: nat monitor)" by simp
  from mon_size_resume [OF this] show ?thesis by (simp add: wait_size_ready_def)
qed

end
