(* ===== verification/LatencyStats.thy ===== *)
theory LatencyStats
  imports Message RunningMean
begin

text \<open>
  \<open>LatencyStats.hpp\<close> and \<open>LatencyStats.cpp\<close>: the latency histogram with 128 buckets, the means and
  maxima kept per thread and operation type, and the summary computed from them.

  \<open>boost::multi_array\<close> is not part of the sources. What the model needs of it beyond arrays is what
  \<open>boost::multi_array<int64_t, 1> opBuckets = bucketCounts[threadid][type]\<close> makes: the parameter
  \<open>sub_init row loc\<close> is the content of that row of \<open>bucketCounts\<close> after \<open>opBuckets\<close>, initialised
  from \<open>row\<close>, has become \<open>loc\<close>. Boost documents the constructor as a deep copy
  (\<open>deep_copy\<close> below). The \<open>printf\<close> formats \<open>%.2f\<close> and \<open>%.3f\<close> are parameters as well.
\<close>

section \<open>Buckets\<close>

definition SUB_MS_BUCKETS :: int where "SUB_MS_BUCKETS = 10"
definition MS_BUCKETS :: int where "MS_BUCKETS = 99"
definition HUNDREDMS_BUCKETS :: int where "HUNDREDMS_BUCKETS = 9"
definition SEC_BUCKETS :: int where "SEC_BUCKETS = 9"
definition MAX_MILLIS :: nat where "MAX_MILLIS = 100"

definition NUM_BUCKETS :: int where
  "NUM_BUCKETS = SUB_MS_BUCKETS + MS_BUCKETS + HUNDREDMS_BUCKETS + SEC_BUCKETS + 1"

lemmas bucket_consts [simp] = SUB_MS_BUCKETS_def MS_BUCKETS_def HUNDREDMS_BUCKETS_def
  SEC_BUCKETS_def NUM_BUCKETS_def

definition latencyToBucket :: "int \<Rightarrow> int" where
  "latencyToBucket microTime =
     (let msTime = microTime sdiv 1000
      in if msTime = 0 then to_i32 (microTime sdiv 100)
         else if msTime < 100 then SUB_MS_BUCKETS + (to_i32 msTime - 1)
         else if msTime < 1000 then SUB_MS_BUCKETS + MS_BUCKETS + (to_i32 (msTime sdiv 100) - 1)
         else if msTime < 10000
              then SUB_MS_BUCKETS + MS_BUCKETS + HUNDREDMS_BUCKETS + (to_i32 (msTime sdiv 1000) - 1)
         else NUM_BUCKETS - 1)"

definition bucketBound :: "int \<Rightarrow> int \<times> int" where
  "bucketBound bucket =
     (let ms = 1000; s = ms * 1000
      in if bucket < SUB_MS_BUCKETS then (bucket * 100, (bucket + 1) * 100)
         else if bucket < SUB_MS_BUCKETS + MS_BUCKETS
              then ((bucket - SUB_MS_BUCKETS + 1) * ms, (bucket - SUB_MS_BUCKETS + 2) * ms)
         else if bucket < SUB_MS_BUCKETS + MS_BUCKETS + HUNDREDMS_BUCKETS
              then (let hundredMS = bucket - SUB_MS_BUCKETS - MS_BUCKETS + 1
                    in (hundredMS * 100 * ms, (hundredMS + 1) * 100 * ms))
         else if bucket < SUB_MS_BUCKETS + MS_BUCKETS + HUNDREDMS_BUCKETS + SEC_BUCKETS
              then (let secBucket = bucket - SUB_MS_BUCKETS - MS_BUCKETS - SEC_BUCKETS + 1
                    in (secBucket * s, (secBucket + 1) * s))
         else ((SEC_BUCKETS + 1) * s, 100 * s))"

text \<open>On non-negative times the casts lose nothing and the divisions are floor divisions.\<close>

lemma latencyToBucket_nonneg:
  assumes "0 \<le> t"
  shows "latencyToBucket t =
    (if t < 1000 then t div 100
     else if t < 100000 then 9 + t div 1000
     else if t < 1000000 then 108 + t div 100000
     else if t < 10000000 then 117 + t div 1000000
     else 127)"
proof -
  have d: "t div 1000 div 100 = t div 100000" "t div 1000 div 1000 = t div 1000000"
    using assms by (simp_all add: zdiv_zmult2_eq [symmetric])
  have s: "t sdiv 1000 = t div 1000" "t sdiv 100 = t div 100"
    using assms by (simp_all add: sdiv_nonneg)
  have c: "t div 1000 = 0 \<longleftrightarrow> t < 1000" "t div 1000 < 100 \<longleftrightarrow> t < 100000"
    "t div 1000 < 1000 \<longleftrightarrow> t < 1000000" "t div 1000 < 10000 \<longleftrightarrow> t < 10000000"
    using assms by linarith+
  have n: "0 \<le> t div 1000" using assms by simp
  show ?thesis
    unfolding latencyToBucket_def Let_def s c
    using assms by (simp add: sdiv_nonneg [OF n] d to_i32_id)
qed

text \<open>The upper bound of a bucket is the lower bound of the next.\<close>

lemma bucketBound_adjacent:
  "0 \<le> b \<Longrightarrow> b < 127 \<Longrightarrow> snd (bucketBound b) = fst (bucketBound (b + 1))"
  by (simp add: bucketBound_def Let_def)

lemma bucketBound_cases:
  assumes "0 \<le> b" and "b < 128"
  shows "bucketBound b =
    (if b < 10 then (b * 100, (b + 1) * 100)
     else if b < 109 then ((b - 9) * 1000, (b - 8) * 1000)
     else if b < 118 then ((b - 108) * 100000, (b - 107) * 100000)
     else if b < 127 then ((b - 117) * 1000000, (b - 116) * 1000000)
     else (10000000, 100000000))"
  using assms by (simp add: bucketBound_def Let_def)

lemma latencyToBucket_range: "0 \<le> t \<Longrightarrow> 0 \<le> latencyToBucket t \<and> latencyToBucket t < NUM_BUCKETS"
  by (auto simp: latencyToBucket_nonneg)

lemma latencyToBucket_mono: "0 \<le> t \<Longrightarrow> t \<le> t' \<Longrightarrow> latencyToBucket t \<le> latencyToBucket t'"
  by (auto simp: latencyToBucket_nonneg)

lemma latency_in_bucket:
  assumes "0 \<le> t" and "t < 100000000"
  shows "fst (bucketBound (latencyToBucket t)) \<le> t \<and> t < snd (bucketBound (latencyToBucket t))"
proof -
  have r: "0 \<le> latencyToBucket t" "latencyToBucket t < 128"
    using latencyToBucket_range [OF assms(1)] by simp_all
  show ?thesis
    unfolding bucketBound_cases [OF r] unfolding latencyToBucket_nonneg [OF assms(1)]
    using assms by auto
qed

section \<open>The statistics object\<close>

record latency_stats =
  maxThreads :: nat
  means :: "running_mean option list list"
  finalMeans :: "real list"
  bucketCounts :: "int list list list"
  maxLatency :: "int list list"
  sampleCounts :: "int list"
  bucketCountsCumulative :: "int list list"

definition LatencyStats :: "nat \<Rightarrow> latency_stats" where
  "LatencyStats n =
     \<lparr>maxThreads = n,
      means = replicate n (replicate MAX_MILLIS None),
      finalMeans = replicate MAX_OPTYPES 0,
      bucketCounts = replicate n (replicate MAX_OPTYPES (replicate (nat NUM_BUCKETS) 0)),
      maxLatency = replicate n (replicate MAX_OPTYPES 0),
      sampleCounts = replicate MAX_OPTYPES 0,
      bucketCountsCumulative = replicate MAX_OPTYPES (replicate (nat NUM_BUCKETS) 0)\<rparr>"

text \<open>An element of a two-dimensional array, and the array with that element replaced.\<close>

definition get2 :: "'a list list \<Rightarrow> int \<Rightarrow> int \<Rightarrow> 'a res" where
  "get2 a i j = rbind (arr_get a i) (\<lambda>row. arr_get row j)"

definition set2 :: "'a list list \<Rightarrow> int \<Rightarrow> int \<Rightarrow> 'a \<Rightarrow> 'a list list res" where
  "set2 a i j v = rbind (arr_get a i) (\<lambda>row. rbind (arr_set row j v) (\<lambda>row'. arr_set a i row'))"

definition recordLatency ::
  "(int list \<Rightarrow> int list \<Rightarrow> int list) \<Rightarrow> latency_stats \<Rightarrow> int \<Rightarrow> message_type \<Rightarrow> int \<Rightarrow> latency_stats res"
where
  "recordLatency sub_init ls threadid type microtimetaken =
     (let ty = int (op_ord type) in
      rbind (get2 (bucketCounts ls) threadid ty) (\<lambda>row.
      (let bucket = latencyToBucket microtimetaken in
      rbind (arr_get row bucket) (\<lambda>c.
      rbind (arr_set row bucket (c + 1)) (\<lambda>opBuckets.
      rbind (set2 (bucketCounts ls) threadid ty (sub_init row opBuckets)) (\<lambda>bc.
      (let time_ms = real_of_int microtimetaken / 1000 in
      rbind (get2 (means ls) threadid ty) (\<lambda>m.
      rbind (set2 (means ls) threadid ty
               (case m of None \<Rightarrow> Some (RunningMean time_ms)
                        | Some r \<Rightarrow> Some (addSample r time_ms))) (\<lambda>ms.
      rbind (get2 (maxLatency ls) threadid ty) (\<lambda>mx.
      rbind (if mx < microtimetaken then set2 (maxLatency ls) threadid ty microtimetaken
             else Inr (maxLatency ls)) (\<lambda>mxs.
      Inr (ls\<lparr>bucketCounts := bc, means := ms, maxLatency := mxs\<rparr>))))))))))))"

section \<open>The summary\<close>

text \<open>\<open>calcMeans\<close>: the two loops over the threads, for one operation type.\<close>

definition calc_samples :: "latency_stats \<Rightarrow> nat \<Rightarrow> int" where
  "calc_samples ls i =
     foldl (\<lambda>samples thread.
              (case means ls ! thread ! i of None \<Rightarrow> samples | Some r \<Rightarrow> samples + samples_of r))
       0 [0..<maxThreads ls]"

definition calc_mean :: "latency_stats \<Rightarrow> nat \<Rightarrow> real" where
  "calc_mean ls i =
     foldl (\<lambda>w thread.
              (case means ls ! thread ! i of
                 None \<Rightarrow> w
               | Some r \<Rightarrow> w + (of_int (samples_of r) / of_int (calc_samples ls i)) * mean r))
       0 [0..<maxThreads ls]"

definition calcMeans :: "latency_stats \<Rightarrow> latency_stats" where
  "calcMeans ls =
     ls\<lparr>sampleCounts := map (calc_samples ls) [0..<MAX_OPTYPES],
        finalMeans := map (calc_mean ls) [0..<MAX_OPTYPES]\<rparr>"

text \<open>\<open>calcCumulativeBuckets\<close>: \<open>count\<close> runs on over the buckets, and over the threads in each.\<close>

fun cumulate :: "latency_stats \<Rightarrow> nat \<Rightarrow> int \<Rightarrow> nat list \<Rightarrow> int list" where
  "cumulate ls type n [] = []"
| "cumulate ls type n (bucket # bs) =
     (let n' = foldl (\<lambda>c thread. c + bucketCounts ls ! thread ! type ! bucket)
                     n [0..<maxThreads ls]
      in n' # cumulate ls type n' bs)"

definition calcCumulativeBuckets :: "latency_stats \<Rightarrow> latency_stats" where
  "calcCumulativeBuckets ls =
     ls\<lparr>bucketCountsCumulative :=
          map (\<lambda>type. cumulate ls type 0 [0..<nat NUM_BUCKETS]) [0..<MAX_OPTYPES]\<rparr>"

definition getBucketBounds :: "latency_stats \<Rightarrow> message_type \<Rightarrow> int \<Rightarrow> (int \<times> int) res" where
  "getBucketBounds ls type percentile =
     (let ty = int (op_ord type) in
      rbind (arr_get (sampleCounts ls) ty) (\<lambda>n.
      rbind (arr_get (bucketCountsCumulative ls) ty) (\<lambda>ranks.
      (let neededRank = trunc ((of_int percentile / 100) * of_int n);
           bucketNum = (case find (\<lambda>i. neededRank \<le> ranks ! i) [0..<nat NUM_BUCKETS] of
                          None \<Rightarrow> -1 | Some i \<Rightarrow> int i)
       in Inr (bucketBound bucketNum)))))"

definition getMean :: "latency_stats \<Rightarrow> message_type \<Rightarrow> real res" where
  "getMean ls type = arr_get (finalMeans ls) (int (op_ord type))"

definition getMax :: "latency_stats \<Rightarrow> message_type \<Rightarrow> real res" where
  "getMax ls type =
     rbind (rfold (\<lambda>thread max_us.
                     rbind (get2 (maxLatency ls) (int thread) (int (op_ord type)))
                       (\<lambda>l. Inr (max max_us l)))
              [0..<maxThreads ls] 0)
       (\<lambda>max_us. Inr (real_of_int max_us / 1000))"

definition boundsToString :: "(real \<Rightarrow> string) \<Rightarrow> int \<times> int \<Rightarrow> string" where
  "boundsToString fmt2f bounds =
     ''['' @ fmt2f (of_int (fst bounds) / 1000) @ '','' @ fmt2f (of_int (snd bounds) / 1000) @ '']''"

definition percentileString ::
  "(real \<Rightarrow> string) \<Rightarrow> latency_stats \<Rightarrow> message_type \<Rightarrow> int \<Rightarrow> string res" where
  "percentileString fmt2f ls type percentile =
     rbind (getBucketBounds ls type percentile) (\<lambda>b. Inr (boundsToString fmt2f b))"

text \<open>One line of \<open>displayLatencyStats\<close>; types without samples are skipped.\<close>

definition display_line ::
  "(real \<Rightarrow> string) \<Rightarrow> (real \<Rightarrow> string) \<Rightarrow> latency_stats \<Rightarrow> message_type \<Rightarrow> string res" where
  "display_line fmt2f fmt3f ls type =
     rbind (arr_get (sampleCounts ls) (int (op_ord type))) (\<lambda>n.
     if n = 0 then Inr []
     else
       rbind (percentileString fmt2f ls type 25) (\<lambda>p25.
       rbind (percentileString fmt2f ls type 50) (\<lambda>p50.
       rbind (percentileString fmt2f ls type 75) (\<lambda>p75.
       rbind (percentileString fmt2f ls type 95) (\<lambda>p95.
       rbind (percentileString fmt2f ls type 99) (\<lambda>p99.
       rbind (getMax ls type) (\<lambda>mx.
       rbind (getMean ls type) (\<lambda>mn.
       Inr (label_of type @ '' count = '' @ show_int n @ '' '' @
            '' p25 = '' @ p25 @ ''ms '' @ '' p50 = '' @ p50 @ ''ms '' @
            '' p75 = '' @ p75 @ ''ms '' @ '' p95 = '' @ p95 @ ''ms '' @
            '' p99 = '' @ p99 @ ''ms '' @ '' max = '' @ fmt3f mx @ ''ms '' @
            '' mean = '' @ fmt3f mn @ ''ms'' @ [CHR 0x0A])))))))))"

definition first_types :: "message_type list" where
  "first_types = map (\<lambda>i. the (op_of i)) [0..<MAX_OPTYPES]"

definition displayLatencyStats ::
  "(real \<Rightarrow> string) \<Rightarrow> (real \<Rightarrow> string) \<Rightarrow> latency_stats \<Rightarrow> (latency_stats \<times> string) res" where
  "displayLatencyStats fmt2f fmt3f ls =
     (let ls' = calcCumulativeBuckets (calcMeans ls) in
      rbind (rfold (\<lambda>type out. rbind (display_line fmt2f fmt3f ls' type) (\<lambda>l. Inr (out @ l)))
               first_types [])
        (\<lambda>out. Inr (ls', out)))"

text \<open>The template \<open>printCSVStats(out, header, ops)\<close>.\<close>

definition csv_percentiles :: "int list" where
  "csv_percentiles = [25, 50, 75, 95, 99]"

definition csv_header :: string where
  "csv_header =
     ''op,count'' @
     concat (map (\<lambda>p. '',p'' @ show_int p @ ''_low,p'' @ show_int p @ ''_high'') csv_percentiles) @
     '',max,mean'' @ [CHR 0x0A]"

definition csv_row ::
  "(real \<Rightarrow> string) \<Rightarrow> (real \<Rightarrow> string) \<Rightarrow> latency_stats \<Rightarrow> message_type \<Rightarrow> string res" where
  "csv_row fmt2f fmt3f ls msg =
     rbind (arr_get (sampleCounts ls) (int (op_ord msg))) (\<lambda>samples.
     if samples = 0 then Inr []
     else
       rbind (rfold (\<lambda>p out. rbind (getBucketBounds ls msg p) (\<lambda>b.
                Inr (out @ '','' @ fmt2f (of_int (fst b) / 1000) @ '','' @ fmt2f (of_int (snd b) / 1000))))
                csv_percentiles (label_of msg @ '','' @ show_int samples)) (\<lambda>row.
       rbind (getMax ls msg) (\<lambda>mx.
       rbind (getMean ls msg) (\<lambda>mn.
       Inr (row @ '','' @ fmt3f mx @ '','' @ fmt3f mn @ [CHR 0x0A])))))"

definition printCSVStats ::
  "(real \<Rightarrow> string) \<Rightarrow> (real \<Rightarrow> string) \<Rightarrow> latency_stats \<Rightarrow> bool \<Rightarrow> message_type list \<Rightarrow> string \<Rightarrow> string res"
where
  "printCSVStats fmt2f fmt3f ls header ops out =
     rfold (\<lambda>msg out. rbind (csv_row fmt2f fmt3f ls msg) (\<lambda>r. Inr (out @ r)))
       ops (if header then out @ csv_header else out)"

text \<open>
  The overload without the list of types fills an array with the types before it calls the template.
  Its counter \<open>i\<close> has no initial value: \<open>i0\<close> is what it happens to be, \<open>ops0\<close> what the array happens to
  hold.
\<close>

definition printCSVStats_all ::
  "(real \<Rightarrow> string) \<Rightarrow> (real \<Rightarrow> string) \<Rightarrow> int \<Rightarrow> message_type list \<Rightarrow> latency_stats \<Rightarrow> bool \<Rightarrow> string \<Rightarrow> string res"
where
  "printCSVStats_all fmt2f fmt3f i0 ops0 ls header out =
     rbind (rfold (\<lambda>i ops. arr_set ops i (the (op_of (nat i)))) [i0..int MAX_OPTYPES - 1] ops0)
       (\<lambda>ops. printCSVStats fmt2f fmt3f ls header ops out)"

end
