(* ===== verification/LatencyHistory.thy ===== *)
theory LatencyHistory
  imports LatencyStats
begin

text \<open>
  What the arrays of \<open>LatencyStats\<close> hold after a history of \<open>recordLatency\<close> calls, as (thread, type,
  microseconds): \<open>ls_repr\<close> relates the two, and \<open>calcMeans\<close> and \<open>getMax\<close> are evaluated on such states.
\<close>

section \<open>Two-dimensional arrays\<close>

definition dims2 :: "'a list list \<Rightarrow> nat \<Rightarrow> nat \<Rightarrow> bool" where
  "dims2 a n m \<longleftrightarrow> length a = n \<and> (\<forall>i<n. length (a ! i) = m)"

lemma get2_ok: "dims2 a n m \<Longrightarrow> i < n \<Longrightarrow> j < m \<Longrightarrow> get2 a (int i) (int j) = Inr (a ! i ! j)"
  by (simp add: dims2_def get2_def arr_simps)

lemma set2_ok: "dims2 a n m \<Longrightarrow> i < n \<Longrightarrow> j < m \<Longrightarrow> set2 a (int i) (int j) v = Inr (a[i := (a ! i)[j := v]])"
  by (simp add: dims2_def set2_def arr_simps)

lemma dims2_update: "dims2 a n m \<Longrightarrow> dims2 (a[i := (a ! i)[j := v]]) n m"
  by (cases "i < n") (auto simp: dims2_def nth_list_update)

lemma nth2_update:
  "dims2 a n m \<Longrightarrow> i < n \<Longrightarrow> j < m \<Longrightarrow> k < n \<Longrightarrow>
   (a[i := (a ! i)[j := v]]) ! k ! l = (if k = i \<and> l = j then v else a ! k ! l)"
  by (auto simp: dims2_def nth_list_update)

lemma dims2_replicate [simp]: "dims2 (replicate n (replicate m v)) n m"
  by (simp add: dims2_def)

lemma set2_same: "dims2 a n m \<Longrightarrow> i < n \<Longrightarrow> j < m \<Longrightarrow> set2 a (int i) (int j) (a ! i ! j) = Inr a"
  by (simp add: set2_ok [of a n m])

section \<open>Histories\<close>

type_synonym latency_event = "nat \<times> message_type \<times> int"

definition record_all ::
  "(int list \<Rightarrow> int list \<Rightarrow> int list) \<Rightarrow> nat \<Rightarrow> latency_event list \<Rightarrow> latency_stats res" where
  "record_all sub_init n evs =
     rfold (\<lambda>(t, ty, us) ls. recordLatency sub_init ls (int t) ty us) evs (LatencyStats n)"

text \<open>Boost's documentation of the constructor: the new array owns a copy of the elements.\<close>

definition deep_copy :: "(int list \<Rightarrow> int list \<Rightarrow> int list) \<Rightarrow> bool" where
  "deep_copy sub_init \<longleftrightarrow> (\<forall>row loc. sub_init row loc = row)"

text \<open>Calls with a thread of the constructor's range, one of the first four types, no negative time.\<close>

definition event_ok :: "nat \<Rightarrow> latency_event \<Rightarrow> bool" where
  "event_ok n ev \<longleftrightarrow> fst ev < n \<and> op_ord (fst (snd ev)) < MAX_OPTYPES \<and> 0 \<le> snd (snd ev)"

definition lats :: "latency_event list \<Rightarrow> nat \<Rightarrow> nat \<Rightarrow> int list" where
  "lats evs t i = map (snd \<circ> snd) (filter (\<lambda>ev. fst ev = t \<and> op_ord (fst (snd ev)) = i) evs)"

definition type_lats :: "latency_event list \<Rightarrow> nat \<Rightarrow> int list" where
  "type_lats evs i = map (snd \<circ> snd) (filter (\<lambda>ev. op_ord (fst (snd ev)) = i) evs)"

fun acc :: "int list \<Rightarrow> running_mean option" where
  "acc [] = None"
| "acc (u # us) =
     Some (foldl addSample (RunningMean (of_int u / 1000)) (map (\<lambda>u. of_int u / 1000) us))"

definition max0 :: "int list \<Rightarrow> int" where
  "max0 us = Max (insert 0 (set us))"

lemma acc_snoc:
  "acc (us @ [u]) = Some (case acc us of None \<Rightarrow> RunningMean (of_int u / 1000)
                                       | Some r \<Rightarrow> addSample r (of_int u / 1000))"
  by (cases us) simp_all

lemma max0_snoc: "max0 (us @ [u]) = max (max0 us) u"
  by (simp add: max0_def insert_commute [of 0 u] max.commute)

lemma lats_snoc:
  "lats (evs @ [(t, ty, us)]) k i =
     (if k = t \<and> i = op_ord ty then lats evs k i @ [us] else lats evs k i)"
  by (auto simp: lats_def)

definition ls_repr :: "nat \<Rightarrow> latency_event list \<Rightarrow> latency_stats \<Rightarrow> bool" where
  "ls_repr n evs ls \<longleftrightarrow>
     maxThreads ls = n \<and>
     dims2 (means ls) n MAX_MILLIS \<and>
     dims2 (maxLatency ls) n MAX_OPTYPES \<and>
     bucketCounts ls = bucketCounts (LatencyStats n) \<and>
     (\<forall>t<n. \<forall>i<MAX_OPTYPES. means ls ! t ! i = acc (lats evs t i)
                           \<and> maxLatency ls ! t ! i = max0 (lats evs t i))"

lemma ls_repr_init: "ls_repr n [] (LatencyStats n)"
  by (simp add: ls_repr_def LatencyStats_def lats_def max0_def MAX_OPTYPES_def MAX_MILLIS_def)

lemma recordLatency_repr:
  assumes repr: "ls_repr n evs ls" and ok: "event_ok n (t, ty, us)" and dc: "deep_copy sub_init"
  shows "\<exists>ls'. recordLatency sub_init ls (int t) ty us = Inr ls' \<and> ls_repr n (evs @ [(t, ty, us)]) ls'"
proof -
  let ?i = "op_ord ty" and ?b = "latencyToBucket us"
  from ok have t: "t < n" and i: "?i < MAX_OPTYPES" and us: "0 \<le> us"
    by (simp_all add: event_ok_def)
  then have i100: "?i < MAX_MILLIS" by (simp add: MAX_OPTYPES_def MAX_MILLIS_def)
  from repr have mt: "dims2 (means ls) n MAX_MILLIS" and ml: "dims2 (maxLatency ls) n MAX_OPTYPES"
    and bc: "bucketCounts ls = bucketCounts (LatencyStats n)"
    by (simp_all add: ls_repr_def)
  have b: "0 \<le> ?b" "?b < 128" using latencyToBucket_range [OF us] by simp_all
  have dbc: "dims2 (bucketCounts ls) n MAX_OPTYPES"
    and row: "bucketCounts ls ! t ! ?i = replicate 128 0"
    using t i by (simp_all add: bc LatencyStats_def)
  let ?ms = "(means ls)[t := (means ls ! t)[?i := acc (lats evs t ?i @ [us])]]"
  let ?mx = "if maxLatency ls ! t ! ?i < us then (maxLatency ls)[t := (maxLatency ls ! t)[?i := us]]
             else maxLatency ls"
  have old: "means ls ! t ! ?i = acc (lats evs t ?i)" "maxLatency ls ! t ! ?i = max0 (lats evs t ?i)"
    using repr t i by (simp_all add: ls_repr_def)
  have bcset: "set2 (bucketCounts ls) (int t) (int ?i) (replicate 128 0) = Inr (bucketCounts ls)"
    using set2_same [OF dbc t i] by (simp add: row)
  have new: "(case acc (lats evs t ?i) of None \<Rightarrow> Some (RunningMean (of_int us / 1000))
                | Some r \<Rightarrow> Some (addSample r (of_int us / 1000))) = acc (lats evs t ?i @ [us])"
    by (simp add: acc_snoc split: option.splits)
  have "recordLatency sub_init ls (int t) ty us
          = Inr (ls\<lparr>bucketCounts := bucketCounts ls, means := ?ms, maxLatency := ?mx\<rparr>)"
    using b dc
    by (simp add: recordLatency_def get2_ok [OF dbc t i] row arr_get_def arr_set_def deep_copy_def
        bcset get2_ok [OF mt t i100] set2_ok [OF mt t i100] old(1) new get2_ok [OF ml t i]
        set2_ok [OF ml t i])
  moreover have "ls_repr n (evs @ [(t, ty, us)])
                   (ls\<lparr>bucketCounts := bucketCounts ls, means := ?ms, maxLatency := ?mx\<rparr>)"
    using repr t i old
    by (auto simp: ls_repr_def lats_snoc nth2_update [OF mt t i100] nth2_update [OF ml t i]
        dims2_update max0_snoc max_def)
  ultimately show ?thesis by blast
qed

lemma record_all_repr:
  assumes "list_all (event_ok n) evs" and "deep_copy sub_init"
  shows "\<exists>ls. record_all sub_init n evs = Inr ls \<and> ls_repr n evs ls"
  using assms(1)
proof (induction evs rule: rev_induct)
  case Nil
  show ?case by (simp add: record_all_def ls_repr_init)
next
  case (snoc ev evs)
  obtain t ty us where ev: "ev = (t, ty, us)" by (cases ev)
  from snoc obtain ls where ls: "record_all sub_init n evs = Inr ls" "ls_repr n evs ls" by auto
  from snoc.prems ev have "event_ok n (t, ty, us)" by simp
  from recordLatency_repr [OF ls(2) this assms(2)] ls(1) ev show ?case
    by (auto simp: record_all_def rfold_append)
qed

section \<open>Sums over the threads\<close>

lemma foldl_plus: "foldl (\<lambda>s x. s + f x) a xs = a + sum_list (map f xs)" for a :: "'a::comm_monoid_add"
  by (induction xs arbitrary: a) (simp_all add: add.assoc)

lemma sum_lats:
  fixes g :: "int \<Rightarrow> 'a::comm_monoid_add"
  assumes "list_all (event_ok n) evs"
  shows "(\<Sum>t<n. sum_list (map g (lats evs t i))) = sum_list (map g (type_lats evs i))"
  using assms
proof (induction evs)
  case (Cons ev evs)
  obtain k ty us where ev: "ev = (k, ty, us)" by (cases ev)
  from Cons.prems ev have k: "k < n" by (simp add: event_ok_def)
  show ?case
  proof (cases "op_ord ty = i")
    case True
    have "(\<Sum>t<n. sum_list (map g (lats (ev # evs) t i)))
            = (\<Sum>t<n. (if t = k then g us else 0) + sum_list (map g (lats evs t i)))"
      by (rule sum.cong) (auto simp: lats_def ev True)
    also have "\<dots> = g us + (\<Sum>t<n. sum_list (map g (lats evs t i)))"
      using k by (simp add: sum.distrib)
    finally show ?thesis using Cons True by (simp add: ev type_lats_def)
  next
    case False
    then have "lats (ev # evs) t i = lats evs t i" for t by (simp add: lats_def ev)
    with Cons False show ?thesis by (simp add: ev type_lats_def)
  qed
qed (simp add: lats_def type_lats_def)

lemma sum_list_upt: "sum_list (map f [0..<n]) = (\<Sum>t<n. f t)" for f :: "nat \<Rightarrow> 'a::comm_monoid_add"
  by (simp add: sum_list_distinct_conv_sum_set atLeast0LessThan)

lemma sum_list_ones: "sum_list (map (\<lambda>_. 1 :: int) xs) = int (length xs)"
  by (induction xs) simp_all

lemma sum_list_thousandths:
  "sum_list (map (\<lambda>u. of_int u / 1000 / N) us) = sum_list (map of_int us) / 1000 / N" for N :: real
  by (induction us) (simp_all add: add_divide_distrib)

lemma samples_acc:
  "(case acc us of None \<Rightarrow> s | Some r \<Rightarrow> s + samples_of r) = s + int (length us)"
  using running_mean_correct by (cases us) simp_all

lemma total_acc:
  "acc us = Some r \<Longrightarrow> of_int (samples_of r) * mean r = sum_list (map (\<lambda>u. of_int u / 1000) us)"
  using running_mean_correct by (cases us) (auto simp del: foldl_Cons)

section \<open>\<open>calcMeans\<close>\<close>

lemma calc_samples_repr:
  assumes repr: "ls_repr n evs ls" and ok: "list_all (event_ok n) evs" and i: "i < MAX_OPTYPES"
  shows "calc_samples ls i = int (length (type_lats evs i))"
proof -
  have "calc_samples ls i = foldl (\<lambda>s t. s + int (length (lats evs t i))) 0 [0..<n]"
    unfolding calc_samples_def using repr i
    by (intro foldl_cong) (auto simp: ls_repr_def samples_acc)
  also have "\<dots> = (\<Sum>t<n. sum_list (map (\<lambda>_. 1) (lats evs t i)))"
    by (simp add: foldl_plus sum_list_upt sum_list_ones)
  also have "\<dots> = int (length (type_lats evs i))"
    using sum_lats [OF ok, of "\<lambda>_. 1 :: int" i] by (simp add: sum_list_ones)
  finally show ?thesis .
qed

lemma calc_mean_repr:
  assumes repr: "ls_repr n evs ls" and ok: "list_all (event_ok n) evs" and i: "i < MAX_OPTYPES"
  shows "calc_mean ls i = sum_list (map of_int (type_lats evs i)) / 1000 / real (length (type_lats evs i))"
proof -
  let ?N = "real (length (type_lats evs i))"
  let ?w = "\<lambda>t. sum_list (map (\<lambda>u. of_int u / 1000 / ?N) (lats evs t i))"
  have N: "of_int (calc_samples ls i) = ?N"
    by (simp add: calc_samples_repr [OF assms])
  have "(case acc us of None \<Rightarrow> w | Some r \<Rightarrow> w + (of_int (samples_of r) / ?N) * mean r)
          = w + sum_list (map (\<lambda>u. of_int u / 1000 / ?N) us)" for us and w :: real
  proof (cases "acc us")
    case None
    then show ?thesis by (cases us) simp_all
  next
    case (Some r)
    have "sum_list (map (\<lambda>u. real_of_int u / 1000) us) = sum_list (map of_int us) / 1000"
      using sum_list_thousandths [of 1 us] by simp
    then have "sum_list (map (\<lambda>u. of_int u / 1000 / ?N) us) = (of_int (samples_of r) * mean r) / ?N"
      unfolding total_acc [OF Some] sum_list_thousandths by (rule arg_cong [OF sym])
    with Some show ?thesis by simp
  qed
  then have "calc_mean ls i = foldl (\<lambda>w t. w + ?w t) 0 [0..<n]"
    unfolding calc_mean_def N using repr i
    by (intro foldl_cong) (auto simp: ls_repr_def)
  also have "\<dots> = (\<Sum>t<n. ?w t)" by (simp add: foldl_plus sum_list_upt)
  also have "\<dots> = sum_list (map (\<lambda>u. of_int u / 1000 / ?N) (type_lats evs i))"
    by (rule sum_lats [OF ok])
  also have "\<dots> = sum_list (map of_int (type_lats evs i)) / 1000 / ?N"
    by (rule sum_list_thousandths)
  finally show ?thesis .
qed

section \<open>\<open>getMax\<close>\<close>

lemma rfold_max:
  fixes g :: "'a \<Rightarrow> int"
  assumes "\<And>t. t \<in> set ths \<Longrightarrow> f t = Inr (g t)"
  shows "rfold (\<lambda>t m. rbind (f t) (\<lambda>l. Inr (max m l))) ths m = Inr (Max (insert m (g ` set ths)))"
  using assms
proof (induction ths arbitrary: m)
  case (Cons t ths)
  have "Max (insert (max m (g t)) (g ` set ths)) = Max (insert m (insert (g t) (g ` set ths)))"
    by (cases "set ths = {}") (simp_all add: max.assoc)
  with Cons show ?case by simp
qed simp

lemma lats_subset: "set (lats evs t i) \<subseteq> set (type_lats evs i)"
  by (auto simp: lats_def type_lats_def)

lemma in_some_lats:
  "list_all (event_ok n) evs \<Longrightarrow> u \<in> set (type_lats evs i) \<Longrightarrow> \<exists>t<n. u \<in> set (lats evs t i)"
  by (fastforce simp: lats_def type_lats_def list_all_iff event_ok_def)

lemma Max_threads:
  assumes ok: "list_all (event_ok n) evs"
  shows "Max (insert 0 ((\<lambda>t. max0 (lats evs t i)) ` {..<n})) = max0 (type_lats evs i)"
proof (rule Max_eqI)
  have le: "max0 (lats evs t i) \<le> max0 (type_lats evs i)" for t
    unfolding max0_def using lats_subset by (intro Max_mono) auto
  then show "y \<le> max0 (type_lats evs i)" if "y \<in> insert 0 ((\<lambda>t. max0 (lats evs t i)) ` {..<n})" for y
    using that by (auto simp: max0_def)
  have "max0 (type_lats evs i) \<in> insert 0 (set (type_lats evs i))"
    unfolding max0_def by (rule Max_in) simp_all
  then consider "max0 (type_lats evs i) = 0" | t where "t < n" "max0 (type_lats evs i) \<in> set (lats evs t i)"
    using in_some_lats [OF ok] by blast
  then show "max0 (type_lats evs i) \<in> insert 0 ((\<lambda>t. max0 (lats evs t i)) ` {..<n})"
  proof cases
    case (2 t)
    then have "max0 (type_lats evs i) \<le> max0 (lats evs t i)"
      by (simp add: max0_def [of "lats evs t i"])
    with le [of t] 2(1) show ?thesis by force
  qed simp
qed simp

lemma getMax_repr:
  assumes repr: "ls_repr n evs ls" and ok: "list_all (event_ok n) evs" and i: "op_ord ty < MAX_OPTYPES"
  shows "getMax ls ty = Inr (of_int (max0 (type_lats evs (op_ord ty))) / 1000)"
proof -
  have "rfold (\<lambda>t m. rbind (get2 (maxLatency ls) (int t) (int (op_ord ty))) (\<lambda>l. Inr (max m l))) [0..<n] 0
          = Inr (Max (insert 0 ((\<lambda>t. max0 (lats evs t (op_ord ty))) ` set [0..<n])))"
    using repr i by (intro rfold_max) (simp add: ls_repr_def get2_ok [of _ n MAX_OPTYPES])
  with repr Max_threads [OF ok, of "op_ord ty"] show ?thesis
    by (simp add: getMax_def ls_repr_def atLeast0LessThan)
qed
end
