(* ===== verification/LatencyFacts.thy ===== *)
theory LatencyFacts
  imports LatencyHistory
begin

text \<open>
  What \<open>LatencyStats\<close> computes: the summary of a recorded history, the table that is printed, and the
  percentile search, proved on any state whose bucket counts are the histogram of a list of samples.
\<close>

section \<open>The percentile search\<close>

text \<open>What the threads have counted together in one bucket.\<close>

definition bucket_total :: "latency_stats \<Rightarrow> nat \<Rightarrow> nat \<Rightarrow> int" where
  "bucket_total ls type b = (\<Sum>t<maxThreads ls. bucketCounts ls ! t ! type ! b)"

lemma cumulate_nth:
  "k < length bs \<Longrightarrow>
   cumulate ls type c bs ! k = c + sum_list (map (bucket_total ls type) (take (Suc k) bs))"
proof (induction bs arbitrary: c k)
  case (Cons b bs)
  have "foldl (\<lambda>c t. c + bucketCounts ls ! t ! type ! b) c [0..<maxThreads ls] = c + bucket_total ls type b"
    by (simp add: foldl_plus sum_list_upt bucket_total_def)
  with Cons show ?case by (cases k) (simp_all add: Let_def add.assoc)
qed simp

lemma length_cumulate [simp]: "length (cumulate ls type c bs) = length bs"
  by (induction bs arbitrary: c) (simp_all add: Let_def)

definition rank_upto :: "latency_stats \<Rightarrow> nat \<Rightarrow> nat \<Rightarrow> int" where
  "rank_upto ls type k = (\<Sum>b\<le>k. bucket_total ls type b)"

lemma ranks_nth:
  assumes "type < MAX_OPTYPES" and "k < 128"
  shows "bucketCountsCumulative (calcCumulativeBuckets ls) ! type ! k = rank_upto ls type k"
proof -
  have "take (Suc k) [0..<128] = [0..<Suc k]"
    using assms(2) by (simp add: take_upt del: upt_Suc)
  then show ?thesis
    using assms
    by (simp add: calcCumulativeBuckets_def cumulate_nth sum_list_upt rank_upto_def lessThan_Suc_atMost
        del: upt_Suc)
qed

text \<open>The bucket that \<open>getBucketBounds\<close> settles on for a needed rank.\<close>

definition found_bucket :: "latency_stats \<Rightarrow> nat \<Rightarrow> int \<Rightarrow> int" where
  "found_bucket ls type r =
     (case find (\<lambda>k. r \<le> rank_upto ls type k) [0..<128] of None \<Rightarrow> -1 | Some k \<Rightarrow> int k)"

lemma find_cong: "(\<And>x. x \<in> set xs \<Longrightarrow> P x = Q x) \<Longrightarrow> find P xs = find Q xs"
  by (induction xs) auto

lemma getBucketBounds_eq:
  assumes "op_ord ty < MAX_OPTYPES" and "length (sampleCounts ls) = MAX_OPTYPES"
  shows "getBucketBounds (calcCumulativeBuckets ls) ty p =
    Inr (bucketBound (found_bucket ls (op_ord ty)
           (trunc (of_int p / 100 * of_int (sampleCounts ls ! op_ord ty)))))"
proof -
  let ?r = "trunc (of_int p / 100 * of_int (sampleCounts ls ! op_ord ty))"
  have "find (\<lambda>k. ?r \<le> bucketCountsCumulative (calcCumulativeBuckets ls) ! op_ord ty ! k) [0..<128]
          = find (\<lambda>k. ?r \<le> rank_upto ls (op_ord ty) k) [0..<128]"
    using assms(1) by (intro find_cong) (simp add: ranks_nth)
  then show ?thesis
    using assms
    by (simp add: getBucketBounds_def found_bucket_def arr_get_ok calcCumulativeBuckets_def Let_def)
qed

text \<open>Counting in a sorted list: the elements up to a bound are a prefix.\<close>

lemma sorted_nth_le_iff:
  "sorted xs \<Longrightarrow> i < length xs \<Longrightarrow> xs ! i \<le> b \<longleftrightarrow> i < length (filter (\<lambda>x. x \<le> b) xs)"
  for b :: "'a::linorder"
proof (induction xs arbitrary: i)
  case (Cons x xs)
  show ?case
  proof (cases "x \<le> b")
    case True
    with Cons show ?thesis by (cases i) auto
  next
    case False
    with Cons.prems have "\<forall>y \<in> set (x # xs). \<not> y \<le> b"
      by (auto dest: order_trans)
    with Cons.prems(2) show ?thesis
      by (metis filter_False length_greater_0_conv not_less_zero nth_mem list.size(3))
  qed
qed simp

text \<open>The bucket counts are the histogram of the samples.\<close>

definition histogram :: "latency_stats \<Rightarrow> nat \<Rightarrow> int list \<Rightarrow> bool" where
  "histogram ls type us \<longleftrightarrow>
     (\<forall>b<128. bucket_total ls type b = int (length (filter (\<lambda>u. latencyToBucket u = int b) us)))"

lemma rank_upto_histogram:
  assumes h: "histogram ls type us" and us: "\<And>u. u \<in> set us \<Longrightarrow> 0 \<le> u" and k: "k < 128"
  shows "rank_upto ls type k = int (length (filter (\<lambda>u. latencyToBucket u \<le> int k) us))"
  using k
proof (induction k)
  case 0
  have "filter (\<lambda>u. latencyToBucket u \<le> int 0) us = filter (\<lambda>u. latencyToBucket u = int 0) us"
    using latencyToBucket_range us by (intro filter_cong) (auto simp: order.antisym)
  with h show ?case by (simp add: rank_upto_def histogram_def)
next
  case (Suc k)
  have "length (filter (\<lambda>u. latencyToBucket u \<le> int (Suc k)) us)
          = length (filter (\<lambda>u. latencyToBucket u \<le> int k) us)
            + length (filter (\<lambda>u. latencyToBucket u = int (Suc k)) us)"
    by (induction us) auto
  with Suc h show ?case by (simp add: rank_upto_def histogram_def)
qed

text \<open>The search finds the bucket of the sample of the needed rank.\<close>

lemma found_bucket_sample:
  assumes h: "histogram ls type us" and us: "\<And>u. u \<in> set us \<Longrightarrow> 0 \<le> u"
    and r: "1 \<le> r" "r \<le> int (length us)"
  shows "found_bucket ls type r = latencyToBucket (sort us ! nat (r - 1))"
proof -
  let ?bs = "map latencyToBucket (sort us)" and ?i = "nat (r - 1)"
  have i: "?i < length us" using r by linarith
  have bs: "sorted ?bs"
    using us by (intro sorted_map_mono [OF sorted_sort]) (auto intro: latencyToBucket_mono monotone_onI)
  have le: "r \<le> rank_upto ls type k \<longleftrightarrow> ?bs ! ?i \<le> int k" if "k < 128" for k
  proof -
    have "length (filter (\<lambda>u. latencyToBucket u \<le> int k) us) = length (filter (\<lambda>b. b \<le> int k) ?bs)"
      by (simp add: filter_map comp_def filter_sort)
    with sorted_nth_le_iff [OF bs, of ?i "int k"] i r rank_upto_histogram [OF h us that]
    show ?thesis by auto
  qed
  have mem: "sort us ! ?i \<in> set us" using i by (metis length_sort nth_mem set_sort)
  then have b: "0 \<le> latencyToBucket (sort us ! ?i)" "latencyToBucket (sort us ! ?i) < 128"
    using latencyToBucket_range us by fastforce+
  let ?m = "nat (latencyToBucket (sort us ! ?i))"
  have m: "?m < 128" using b by linarith
  have "find (\<lambda>k. r \<le> rank_upto ls type k) [0..<128] = Some ?m"
    unfolding find_Some_iff
    using m b i by (intro exI [of _ ?m]) (auto simp: le)
  with b show ?thesis by (simp add: found_bucket_def)
qed

section \<open>Properties\<close>

text \<open>C30: The bucket of a measured latency is one of the 128, larger latencies never fall into smaller
  buckets, and the bounds reported for the bucket contain the latency exactly when it is below 100
  seconds: the last bucket is open in \<open>latencyToBucket\<close> but bounded in \<open>bucketBound\<close>.\<close>

theorem bucket_bounds_contain:
  assumes "0 \<le> t"
  shows "0 \<le> latencyToBucket t \<and> latencyToBucket t < NUM_BUCKETS \<and>
    (\<forall>t' \<ge> t. latencyToBucket t \<le> latencyToBucket t') \<and>
    fst (bucketBound (latencyToBucket t)) \<le> t \<and>
    (t < snd (bucketBound (latencyToBucket t)) \<longleftrightarrow> t < 100000000)"
proof -
  have big: "bucketBound (latencyToBucket t) = (10000000, 100000000)" if "100000000 \<le> t"
    using that by (simp add: latencyToBucket_nonneg bucketBound_cases)
  have "fst (bucketBound (latencyToBucket t)) \<le> t"
    "t < snd (bucketBound (latencyToBucket t)) \<longleftrightarrow> t < 100000000"
    using big latency_in_bucket [OF assms] by (cases "t < 100000000"; force)+
  then show ?thesis
    using latencyToBucket_range [OF assms] latencyToBucket_mono [OF assms] by blast
qed

lemma bucket_bounds_contain_witness:
  "latencyToBucket 2500 = 11 \<and> bucketBound 11 = (2000, 3000) \<and> latencyToBucket 2500 \<le> latencyToBucket 3000
   \<and> \<not> 100000000 < snd (bucketBound (latencyToBucket 100000000))"
proof -
  have "latencyToBucket 2500 \<le> latencyToBucket 3000"
    using bucket_bounds_contain [of 2500] by simp
  moreover have "\<not> 100000000 < snd (bucketBound (latencyToBucket 100000000))"
    using bucket_bounds_contain [of 100000000] by simp
  ultimately show ?thesis by (simp add: latencyToBucket_nonneg bucketBound_cases)
qed

text \<open>C16: After any sequence of \<open>recordLatency\<close> calls on the threads of the object, \<open>calcMeans\<close> gives for
  each of the first four types the number of calls and the mean of their times in ms, weighting the
  threads by their samples, and \<open>getMax\<close> the largest time in ms.\<close>

theorem latency_summary:
  assumes "list_all (event_ok n) evs" and "deep_copy sub_init" and "op_ord ty < MAX_OPTYPES"
  shows "\<exists>ls. record_all sub_init n evs = Inr ls \<and>
    sampleCounts (calcMeans ls) ! op_ord ty = int (length (type_lats evs (op_ord ty))) \<and>
    getMean (calcMeans ls) ty
      = Inr (sum_list (map of_int (type_lats evs (op_ord ty))) / 1000 / length (type_lats evs (op_ord ty))) \<and>
    getMax ls ty = Inr (of_int (Max (insert 0 (set (type_lats evs (op_ord ty))))) / 1000)"
proof -
  from record_all_repr [OF assms(1,2)] obtain ls
    where ls: "record_all sub_init n evs = Inr ls" "ls_repr n evs ls" by blast
  note facts = calc_samples_repr [OF ls(2) assms(1,3)] calc_mean_repr [OF ls(2) assms(1,3)]
    getMax_repr [OF ls(2) assms(1,3)]
  with ls(1) assms(3) show ?thesis
    by (simp add: calcMeans_def getMean_def arr_get_ok max0_def)
qed

lemma latency_summary_witness:
  "\<exists>ls. record_all (\<lambda>row loc. row) 2 [(0, Insert, 2000), (1, Insert, 4000), (1, Delete, 9)] = Inr ls \<and>
     sampleCounts (calcMeans ls) ! 0 = 2 \<and> getMean (calcMeans ls) Insert = Inr 3 \<and>
     getMax ls Insert = Inr 4"
  using latency_summary [of 2 "[(0, Insert, 2000), (1, Insert, 4000), (1, Delete, 9)]" "\<lambda>row loc. row" Insert]
  by (simp add: event_ok_def MAX_OPTYPES_def deep_copy_def type_lats_def)

text \<open>
  On counts that were never raised the search stops at bucket 0 when the needed rank is 0, and
  otherwise not at all; \<open>bucketBound\<close> is then applied to -1.
\<close>

lemma found_bucket_no_counts:
  assumes "\<And>b. b < 128 \<Longrightarrow> bucket_total ls i b = 0"
  shows "found_bucket ls i r = (if r \<le> 0 then 0 else -1)"
proof -
  have z: "rank_upto ls i k = 0" if "k < 128" for k
    using assms that by (simp add: rank_upto_def)
  have "find (\<lambda>k. r \<le> rank_upto ls i k) [0..<128] = find (\<lambda>k. r \<le> 0) [0..<128]"
    using z by (intro find_cong) simp
  also have "\<dots> = (if r \<le> 0 then Some 0 else None)"
    by (simp add: upt_rec find_None_iff)
  finally show ?thesis by (simp add: found_bucket_def)
qed

lemma bucket_total_repr:
  assumes "ls_repr n evs ls" and "i < MAX_OPTYPES" and "b < 128"
  shows "bucket_total ls i b = 0"
proof -
  from assms have "bucketCounts ls ! t ! i ! b = 0" if "t < n" for t
    using that by (simp add: ls_repr_def LatencyStats_def)
  with assms(1) show ?thesis by (simp add: bucket_total_def ls_repr_def)
qed

text \<open>C37: \<open>recordLatency\<close> counts in a copy of the bucket row (\<open>boost::multi_array\<close> built from a subarray
  copies its elements), so no latency ever reaches the counts that percentiles are computed from:
  whatever was recorded, every percentile is reported as [0, 100) microseconds when its rank rounds
  to 0, and as [-100, 0) otherwise.\<close>

theorem percentiles_ignore_latencies:
  assumes "list_all (event_ok n) evs" and "deep_copy sub_init" and "op_ord ty < MAX_OPTYPES"
    and "0 \<le> p"
  shows "\<exists>ls. record_all sub_init n evs = Inr ls \<and>
    getBucketBounds (calcCumulativeBuckets (calcMeans ls)) ty p
      = Inr (if p * int (length (type_lats evs (op_ord ty))) < 100 then (0, 100) else (-100, 0))"
proof -
  let ?k = "int (length (type_lats evs (op_ord ty)))"
  from record_all_repr [OF assms(1,2)] obtain ls
    where ls: "record_all sub_init n evs = Inr ls" "ls_repr n evs ls" by blast
  have n: "sampleCounts (calcMeans ls) ! op_ord ty = ?k" "length (sampleCounts (calcMeans ls)) = MAX_OPTYPES"
    using calc_samples_repr [OF ls(2) assms(1,3)] assms(3) by (simp_all add: calcMeans_def)
  have z: "bucket_total (calcMeans ls) (op_ord ty) b = 0" if "b < 128" for b
    using bucket_total_repr [OF ls(2) assms(3) that] by (simp add: bucket_total_def calcMeans_def)
  have "getBucketBounds (calcCumulativeBuckets (calcMeans ls)) ty p
          = Inr (bucketBound (if p * ?k div 100 \<le> 0 then 0 else -1))"
    using getBucketBounds_eq [OF assms(3) n(2), of p] found_bucket_no_counts [OF z] assms(4)
    by (simp add: n(1) trunc_percent [of p ?k, simplified])
  moreover have "p * ?k div 100 \<le> 0 \<longleftrightarrow> p * ?k < 100" using assms(4) by linarith
  ultimately show ?thesis using ls(1) by (simp add: bucketBound_def)
qed

lemma percentiles_ignore_latencies_witness:
  "\<exists>ls. record_all (\<lambda>row loc. row) 1 ([(0, Insert, 2000), (0, Insert, 30)]) = Inr ls \<and>
     getBucketBounds (calcCumulativeBuckets (calcMeans ls)) Insert 99 = Inr (-100, 0)"
  using percentiles_ignore_latencies [of 1 "[(0, Insert, 2000), (0, Insert, 30)]" "\<lambda>row loc. row" Insert 99]
  by (simp add: event_ok_def MAX_OPTYPES_def deep_copy_def type_lats_def)

text \<open>
  The lines of the final table: types without calls are skipped, the others show their count, maximum
  and mean; the percentiles are \<open>mid\<close>.
\<close>

lemma display_line_eq:
  assumes repr: "ls_repr n evs ls" and ok: "list_all (event_ok n) evs" and ty: "op_ord ty < MAX_OPTYPES"
  shows "\<exists>mid. display_line fmt2f fmt3f (calcCumulativeBuckets (calcMeans ls)) ty = Inr
    (let us = type_lats evs (op_ord ty) in
     if us = [] then []
     else label_of ty @ '' count = '' @ show_int (int (length us)) @ mid @
          '' max = '' @ fmt3f (of_int (Max (insert 0 (set us))) / 1000) @ ''ms '' @
          '' mean = '' @ fmt3f (sum_list (map of_int us) / 1000 / length us) @ ''ms'' @ [CHR 0x0A])"
proof -
  let ?ls = "calcCumulativeBuckets (calcMeans ls)" and ?us = "type_lats evs (op_ord ty)"
  have n: "arr_get (sampleCounts ?ls) (int (op_ord ty)) = Inr (int (length ?us))"
    using calc_samples_repr [OF repr ok ty] ty by (simp add: calcMeans_def calcCumulativeBuckets_def arr_get_ok)
  have mx: "getMax ?ls ty = Inr (of_int (Max (insert 0 (set ?us))) / 1000)"
    using getMax_repr [OF repr ok ty] by (simp add: getMax_def calcMeans_def calcCumulativeBuckets_def max0_def)
  have mn: "getMean ?ls ty = Inr (sum_list (map of_int ?us) / 1000 / length ?us)"
    using calc_mean_repr [OF repr ok ty] ty by (simp add: getMean_def calcMeans_def calcCumulativeBuckets_def arr_get_ok)
  have "length (sampleCounts (calcMeans ls)) = MAX_OPTYPES" by (simp add: calcMeans_def)
  then have "\<exists>x. percentileString fmt2f ?ls ty p = Inr x" for p
    by (simp add: percentileString_def getBucketBounds_eq [OF ty])
  then obtain ps where ps: "percentileString fmt2f ?ls ty p = Inr (ps p)" for p by metis
  let ?mid = "'' '' @ '' p25 = '' @ ps 25 @ ''ms '' @ '' p50 = '' @ ps 50 @ ''ms '' @ '' p75 = '' @ ps 75 @
    ''ms '' @ '' p95 = '' @ ps 95 @ ''ms '' @ '' p99 = '' @ ps 99 @ ''ms ''"
  show ?thesis
    by (intro exI [of _ ?mid]) (simp add: display_line_def n ps mx mn Let_def)
qed

text \<open>The table after a run that recorded one type only.\<close>

lemma latency_table_one_type:
  assumes repr: "ls_repr n evs ls" and ok: "list_all (event_ok n) evs" and ty: "op_ord ty < MAX_OPTYPES"
    and one: "\<forall>ev \<in> set evs. fst (snd ev) = ty"
  shows "\<exists>ls' mid. displayLatencyStats fmt2f fmt3f ls = Inr (ls',
    (let us = map (snd \<circ> snd) evs in
     if us = [] then []
     else label_of ty @ '' count = '' @ show_int (int (length us)) @ mid @
          '' max = '' @ fmt3f (of_int (Max (insert 0 (set us))) / 1000) @ ''ms '' @
          '' mean = '' @ fmt3f (sum_list (map of_int us) / 1000 / length us) @ ''ms'' @ [CHR 0x0A]))"
proof -
  let ?ls = "calcCumulativeBuckets (calcMeans ls)"
  have lats: "type_lats evs (op_ord ty') = (if ty' = ty then map (snd \<circ> snd) evs else [])" for ty'
    using one by (auto simp: type_lats_def filter_id_conv filter_empty_conv)
  obtain mid where line: "display_line fmt2f fmt3f ?ls ty = Inr
    (let us = map (snd \<circ> snd) evs in
     if us = [] then []
     else label_of ty @ '' count = '' @ show_int (int (length us)) @ mid @
          '' max = '' @ fmt3f (of_int (Max (insert 0 (set us))) / 1000) @ ''ms '' @
          '' mean = '' @ fmt3f (sum_list (map of_int us) / 1000 / length us) @ ''ms'' @ [CHR 0x0A])"
    using display_line_eq [OF repr ok ty, of fmt2f fmt3f] lats [of ty] by auto
  have other: "display_line fmt2f fmt3f ?ls ty' = Inr []" if "op_ord ty' < MAX_OPTYPES" "ty' \<noteq> ty" for ty'
    using display_line_eq [OF repr ok that(1), of fmt2f fmt3f] lats [of ty'] that(2) by simp
  have types: "first_types = [Insert, Delete, InsertMetric, DeleteDevice]"
    by (simp add: first_types_def MAX_OPTYPES_def upt_rec)
  have "ty \<in> {Insert, Delete, InsertMetric, DeleteDevice}"
    using ty by (cases ty) (simp_all add: MAX_OPTYPES_def)
  then have "rfold (\<lambda>type out. rbind (display_line fmt2f fmt3f ?ls type) (\<lambda>l. Inr (out @ l))) first_types []
      = display_line fmt2f fmt3f ?ls ty"
    using line other unfolding types by (auto simp: MAX_OPTYPES_def)
  with line show ?thesis by (auto simp: displayLatencyStats_def Let_def)
qed

text \<open>C17: On counts that are the histogram of the samples, the percentile search is right: the bounds
  it reports contain the sample whose rank is the percentage of the number of samples, rounded
  down, provided that rank is not 0 and the sample is shorter than 100 seconds.\<close>

theorem percentile_search_correct:
  assumes "op_ord ty < MAX_OPTYPES" and "length (sampleCounts ls) = MAX_OPTYPES"
    and "sampleCounts ls ! op_ord ty = int (length us)"
    and h: "histogram ls (op_ord ty) us" and us: "\<forall>u \<in> set us. 0 \<le> u \<and> u < 100000000"
    and p: "0 < p" "p \<le> 100" and r: "100 \<le> p * int (length us)"
  shows "\<exists>lo hi. getBucketBounds (calcCumulativeBuckets ls) ty p = Inr (lo, hi) \<and>
    lo \<le> sort us ! nat (p * int (length us) div 100 - 1) \<and>
    sort us ! nat (p * int (length us) div 100 - 1) < hi"
proof -
  let ?r = "p * int (length us) div 100"
  let ?u = "sort us ! nat (?r - 1)"
  have "p * int (length us) \<le> 100 * int (length us)" using p by (intro mult_right_mono) simp_all
  then have r: "1 \<le> ?r" "?r \<le> int (length us)" using r by linarith+
  then have "nat (?r - 1) < length (sort us)" unfolding length_sort by linarith
  from nth_mem [OF this] have "?u \<in> set us" by simp
  then have u: "0 \<le> ?u" "?u < 100000000" using us by simp_all
  have "found_bucket ls (op_ord ty) ?r = latencyToBucket ?u"
    using found_bucket_sample [OF h _ r] us by simp
  then have "getBucketBounds (calcCumulativeBuckets ls) ty p = Inr (bucketBound (latencyToBucket ?u))"
    using getBucketBounds_eq [OF assms(1,2), of p] p assms(3)
    by (simp add: trunc_percent [of p "int (length us)", simplified])
  with latency_in_bucket [OF u] show ?thesis
    by (cases "bucketBound (latencyToBucket ?u)") auto
qed

definition two_samples :: latency_stats where
  "two_samples =
     LatencyStats 1 \<lparr>sampleCounts := [2, 0, 0, 0],
       bucketCounts := [[(replicate 128 0)[1 := 1, 11 := 1], replicate 128 0, replicate 128 0, replicate 128 0]]\<rparr>"

lemma two_samples_histogram: "histogram two_samples 0 [2500, 150]"
proof -
  have "latencyToBucket 2500 = 11" "latencyToBucket 150 = 1" by (simp_all add: latencyToBucket_nonneg)
  then show ?thesis
    by (auto simp: histogram_def bucket_total_def two_samples_def LatencyStats_def nth_list_update)
qed

lemma percentile_search_correct_witness:
  "\<exists>lo hi. getBucketBounds (calcCumulativeBuckets two_samples) Insert 50 = Inr (lo, hi) \<and> lo \<le> 150 \<and> 150 < hi"
  using percentile_search_correct [of Insert two_samples "[2500, 150]" 50] two_samples_histogram
  by (simp add: MAX_OPTYPES_def two_samples_def LatencyStats_def)
end
