(* ===== verification/LatencyCsv.thy ===== *)
theory LatencyCsv
  imports LatencyFacts
begin

text \<open>
  The CSV output of \<open>LatencyStats\<close>: its rows have the columns of its header; what the overload
  without the list of types prints; and the types for which there is no room in the arrays.
\<close>

section \<open>The CSV output\<close>

lemma rfold_columns:
  assumes "\<And>x. x \<in> set xs \<Longrightarrow> \<exists>c. g x = Inr c \<and> commas c = 2"
  shows "\<exists>c. rfold (\<lambda>x out. rbind (g x) (\<lambda>c. Inr (out @ c))) xs out = Inr (out @ c) \<and> commas c = 2 * length xs"
  using assms
proof (induction xs arbitrary: out)
  case (Cons x xs)
  from Cons.prems [of x] obtain c where c: "g x = Inr c" "commas c = 2" by auto
  from Cons.IH [of "out @ c"] Cons.prems obtain d
    where "rfold (\<lambda>x out. rbind (g x) (\<lambda>c. Inr (out @ c))) xs (out @ c) = Inr ((out @ c) @ d)"
      "commas d = 2 * length xs" by auto
  with c show ?case by (intro exI [of _ "c @ d"]) simp
qed simp

lemma commas_csv_header: "commas csv_header = 13"
proof -
  have "commas (concat (map (\<lambda>p. '',p'' @ show_int p @ ''_low,p'' @ show_int p @ ''_high'') csv_percentiles)) = 10"
    by (simp add: csv_percentiles_def)
  then show ?thesis by (simp add: csv_header_def)
qed

lemma csv_row_columns:
  assumes ty: "op_ord ty < MAX_OPTYPES" and n: "length (sampleCounts ls) = MAX_OPTYPES"
    and fmt: "\<And>x. commas (fmt2f x) = 0" "\<And>x. commas (fmt3f x) = 0"
    and m: "getMax (calcCumulativeBuckets ls) ty = Inr mx" "getMean (calcCumulativeBuckets ls) ty = Inr mn"
  shows "\<exists>row. csv_row fmt2f fmt3f (calcCumulativeBuckets ls) ty = Inr row \<and>
    (if sampleCounts ls ! op_ord ty = 0 then row = [] else commas row = 13)"
proof (cases "sampleCounts ls ! op_ord ty = 0")
  case True
  with ty n show ?thesis by (simp add: csv_row_def arr_get_ok calcCumulativeBuckets_def)
next
  case False
  let ?ls = "calcCumulativeBuckets ls" and ?out = "label_of ty @ '','' @ show_int (sampleCounts ls ! op_ord ty)"
  let ?g = "\<lambda>p. rbind (getBucketBounds ?ls ty p)
    (\<lambda>b. Inr ('','' @ fmt2f (of_int (fst b) / 1000) @ '','' @ fmt2f (of_int (snd b) / 1000)))"
  have "\<exists>c. ?g p = Inr c \<and> commas c = 2" for p
    using getBucketBounds_eq [OF ty n, of p] fmt by simp
  from rfold_columns [of csv_percentiles ?g ?out, OF this] obtain c
    where c: "rfold (\<lambda>p out. rbind (?g p) (\<lambda>c. Inr (out @ c))) csv_percentiles ?out = Inr (?out @ c)"
      "commas c = 10" by (auto simp: csv_percentiles_def)
  have "rbind (?g p) (\<lambda>c. Inr (out @ c)) = rbind (getBucketBounds ?ls ty p)
    (\<lambda>b. Inr (out @ '','' @ fmt2f (of_int (fst b) / 1000) @ '','' @ fmt2f (of_int (snd b) / 1000)))" for p out
    by (cases "getBucketBounds ?ls ty p") simp_all
  with c(1) have "rfold (\<lambda>p out. rbind (getBucketBounds ?ls ty p)
    (\<lambda>b. Inr (out @ '','' @ fmt2f (of_int (fst b) / 1000) @ '','' @ fmt2f (of_int (snd b) / 1000))))
      csv_percentiles ?out = Inr (?out @ c)" by simp
  with False ty n m c(2) fmt show ?thesis
    by (simp add: csv_row_def arr_get_ok calcCumulativeBuckets_def)
qed

text \<open>The CSV table of the latency statistics is rectangular: after any recorded history the summary
  of each of the first four types produces no line when the type has no samples, and otherwise a
  line with as many separators as the header line, provided the formatted numbers contain none.\<close>

theorem latency_csv_rectangular:
  assumes "list_all (event_ok n) evs" and "deep_copy sub_init" and "op_ord ty < MAX_OPTYPES"
    and "\<And>x. commas (fmt2f x) = 0" and "\<And>x. commas (fmt3f x) = 0"
  shows "\<exists>ls row. record_all sub_init n evs = Inr ls \<and>
    csv_row fmt2f fmt3f (calcCumulativeBuckets (calcMeans ls)) ty = Inr row \<and>
    (if type_lats evs (op_ord ty) = [] then row = [] else commas row = commas csv_header)"
proof -
  from record_all_repr [OF assms(1,2)] obtain ls
    where ls: "record_all sub_init n evs = Inr ls" "ls_repr n evs ls" by blast
  let ?ls = "calcMeans ls"
  have n: "sampleCounts ?ls ! op_ord ty = int (length (type_lats evs (op_ord ty)))"
    "length (sampleCounts ?ls) = MAX_OPTYPES" "length (finalMeans ?ls) = MAX_OPTYPES"
    using calc_samples_repr [OF ls(2) assms(1,3)] assms(3) by (simp_all add: calcMeans_def)
  have "getMax (calcCumulativeBuckets ?ls) ty = getMax ls ty"
    by (simp add: getMax_def calcMeans_def calcCumulativeBuckets_def)
  with getMax_repr [OF ls(2) assms(1,3)]
  have mx: "\<exists>mx. getMax (calcCumulativeBuckets ?ls) ty = Inr mx" by metis
  have mn: "\<exists>mn. getMean (calcCumulativeBuckets ?ls) ty = Inr mn"
    using n(3) assms(3) by (simp add: getMean_def calcCumulativeBuckets_def arr_get_ok)
  from mx mn csv_row_columns [OF assms(3) n(2) assms(4,5)] ls(1) n(1) show ?thesis
    unfolding commas_csv_header by fastforce
qed

lemma latency_csv_rectangular_witness:
  "\<exists>ls row. record_all (\<lambda>row loc. row) 1 [(0, Insert, 2000)] = Inr ls \<and>
     csv_row (\<lambda>_. ''0'') (\<lambda>_. ''1'') (calcCumulativeBuckets (calcMeans ls)) Insert = Inr row \<and>
     commas row = commas csv_header"
  using latency_csv_rectangular [of 1 "[(0, Insert, 2000)]" "\<lambda>row loc. row" Insert "\<lambda>_. ''0''" "\<lambda>_. ''1''"]
  by (simp add: event_ok_def MAX_OPTYPES_def deep_copy_def type_lats_def)

text \<open>
  \<open>MAX_OPTYPES\<close> is the size of the enumeration type, not the number of its enumerators, so the arrays
  have no element for the three kinds of select: recording the latency of one indexes out of bounds.
\<close>

lemma latency_select_out_of_bounds:
  assumes "op_ord ty \<ge> MAX_OPTYPES"
  shows "recordLatency sub_init (LatencyStats n) threadid ty us = Inl OutOfBounds"
proof -
  have "arr_get (bucketCounts (LatencyStats n)) threadid = Inl OutOfBounds \<or>
      arr_get (bucketCounts (LatencyStats n)) threadid = Inr (replicate MAX_OPTYPES (replicate 128 0))"
    by (auto simp: LatencyStats_def arr_get_def nat_less_iff)
  with assms show ?thesis
    by (auto simp: recordLatency_def get2_def arr_get_bad Let_def)
qed

text \<open>
  The overload of \<open>printCSVStats\<close> with its uninitialised counter prints the first four types only if the
  counter happens to start at 0; it prints whatever the array holds if it starts above the array, and
  writes outside of the array if it starts below.
\<close>

lemma printCSVStats_all_cases:
  assumes "length ops0 = MAX_OPTYPES"
  shows "(i0 = 0 \<longrightarrow> printCSVStats_all fmt2f fmt3f i0 ops0 ls header out = printCSVStats fmt2f fmt3f ls header first_types out) \<and>
    (int MAX_OPTYPES \<le> i0 \<longrightarrow> printCSVStats_all fmt2f fmt3f i0 ops0 ls header out = printCSVStats fmt2f fmt3f ls header ops0 out) \<and>
    (i0 < 0 \<longrightarrow> printCSVStats_all fmt2f fmt3f i0 ops0 ls header out = Inl OutOfBounds)"
proof (intro conjI impI)
  obtain a b c d where ops0: "ops0 = [a, b, c, d]"
    using assms by (auto simp: MAX_OPTYPES_def numeral_eq_Suc length_Suc_conv)
  have up: "[0..3 :: int] = [0, 1, 2, 3]" by (simp add: upto.simps)
  assume "i0 = 0"
  then show "printCSVStats_all fmt2f fmt3f i0 ops0 ls header out = printCSVStats fmt2f fmt3f ls header first_types out"
    unfolding printCSVStats_all_def
    by (simp add: ops0 up MAX_OPTYPES_def arr_set_def first_types_def upt_rec)
next
  assume "int MAX_OPTYPES \<le> i0"
  then show "printCSVStats_all fmt2f fmt3f i0 ops0 ls header out = printCSVStats fmt2f fmt3f ls header ops0 out"
    by (simp add: printCSVStats_all_def)
next
  assume "i0 < 0"
  then have "[i0..int MAX_OPTYPES - 1] = i0 # [i0 + 1..int MAX_OPTYPES - 1]"
    by (subst upto.simps) (simp add: MAX_OPTYPES_def)
  with \<open>i0 < 0\<close> show "printCSVStats_all fmt2f fmt3f i0 ops0 ls header out = Inl OutOfBounds"
    by (simp add: printCSVStats_all_def arr_set_def)
qed

end
