(* ===== verification/Uri.thy ===== *)
theory Uri
  imports Prelude
begin

text \<open>
  \<open>Uri.hpp\<close> and \<open>Uri.cpp\<close>: the URL parser. Iterators into the string are positions, \<open>end()\<close> is the
  length. \<open>std::find\<close> and the range constructor of \<open>std::string\<close> need a range whose end does not
  precede its start; where the code builds another one the result is \<^term>\<open>Inl InvalidRange\<close>.
\<close>

record uri =
  QueryString :: string
  Path :: string
  Protocol :: string
  Host :: string
  Port :: string

definition uri_empty :: uri where
  "uri_empty = \<lparr>QueryString = [], Path = [], Protocol = [], Host = [], Port = []\<rparr>"

section \<open>The library calls\<close>

definition find_chr :: "string \<Rightarrow> nat \<Rightarrow> nat \<Rightarrow> char \<Rightarrow> nat res" where
  "find_chr s i j c =
     (if i \<le> j
      then Inr (i + length (takeWhile (\<lambda>x. x \<noteq> c) (take (j - i) (drop i s))))
      else Inl InvalidRange)"

definition substr_range :: "string \<Rightarrow> nat \<Rightarrow> nat \<Rightarrow> string res" where
  "substr_range s i j =
     (if i \<le> j then Inr (take (j - i) (drop i s)) else Inl InvalidRange)"

text \<open>\<open>std::string prot = &*it\<close> reads a C string: up to the first NUL.\<close>

definition c_str :: "string \<Rightarrow> nat \<Rightarrow> string" where
  "c_str s p = takeWhile (\<lambda>x. x \<noteq> CHR 0x00) (drop p s)"

section \<open>\<open>Uri::Parse\<close>\<close>

definition Uri_Parse :: "string \<Rightarrow> uri res" where
  "Uri_Parse s =
     (if length s = 0 then Inr uri_empty
      else
        (let uriEnd = length s in
         rbind (find_chr s 0 uriEnd (CHR ''?'')) (\<lambda>queryStart.
         rbind (find_chr s 0 uriEnd (CHR '':'')) (\<lambda>colon.
         (let (protocol, protocolEnd) =
                (if colon \<noteq> uriEnd
                 then (let prot = c_str s colon
                       in if length prot > 3 \<and> take 3 prot = ''://''
                          then (take colon s, colon + 3) else ([], 0))
                 else ([], 0)) in
         rbind (find_chr s protocolEnd uriEnd (CHR ''/'')) (\<lambda>pathStart.
         (let lim = (if pathStart \<noteq> uriEnd then pathStart else queryStart) in
         rbind (find_chr s protocolEnd lim (CHR '':'')) (\<lambda>hostEnd.
         rbind (substr_range s protocolEnd hostEnd) (\<lambda>host.
         rbind (if hostEnd \<noteq> uriEnd \<and> s ! hostEnd = CHR '':''
                then substr_range s (hostEnd + 1) lim else Inr []) (\<lambda>port.
         rbind (if pathStart \<noteq> uriEnd then substr_range s pathStart queryStart else Inr []) (\<lambda>path.
         rbind (if queryStart \<noteq> uriEnd then substr_range s queryStart uriEnd else Inr []) (\<lambda>query.
         Inr \<lparr>QueryString = query, Path = path, Protocol = protocol, Host = host, Port = port\<rparr>))))))))))))"

section \<open>Searching and cutting concatenations\<close>

text \<open>A search over \<open>b\<close>, which does not hold the character, up to where it occurs or the range ends.\<close>

lemma find_chr_to:
  assumes c: "c \<notin> set b" and i: "i = length a" and j: "j = i + length (b @ d)"
    and d: "d = [] \<or> hd d = c"
  shows "find_chr (a @ b @ d @ e) i j c = Inr (i + length b)"
proof -
  have "takeWhile (\<lambda>x. x \<noteq> c) (b @ d) = b"
    using c d by (induction b) (cases d; auto)+
  with i j show ?thesis by (simp add: find_chr_def)
qed

lemma substr_range_mid:
  "i = length a \<Longrightarrow> j = i + length b \<Longrightarrow> substr_range (a @ b @ d) i j = Inr b"
  by (simp add: substr_range_def)

lemma substr_rangeI:
  "s = a @ b @ d \<Longrightarrow> i = length a \<Longrightarrow> j = i + length b \<Longrightarrow> substr_range s i j = Inr b"
  by (simp add: substr_range_mid)

lemma c_str_protocol:
  assumes "h \<noteq> []" and "hd h \<noteq> CHR 0x00" and "n = length a"
  shows "length (c_str (a @ ''://'' @ h @ r) n) > 3 \<and> take 3 (c_str (a @ ''://'' @ h @ r) n) = ''://''"
  using assms by (cases h) (simp_all add: c_str_def)

section \<open>Rendering and parsing back\<close>

definition authority :: "uri \<Rightarrow> string" where
  "authority u = Host u @ (if Port u = [] then [] else CHR '':'' # Port u)"

definition render :: "uri \<Rightarrow> string" where
  "render u = Protocol u @ ''://'' @ authority u @ Path u @ QueryString u"

text \<open>
  The parts of a URL that parses back: no delimiter of a later part inside an earlier one, and no
  \<open>/\<close> in the query unless there is a path.
\<close>

definition wf_uri :: "uri \<Rightarrow> bool" where
  "wf_uri u \<longleftrightarrow>
     CHR '':'' \<notin> set (Protocol u) \<and> CHR ''?'' \<notin> set (Protocol u) \<and>
     CHR '':'' \<notin> set (Host u) \<and> CHR ''/'' \<notin> set (Host u) \<and> CHR ''?'' \<notin> set (Host u) \<and>
     CHR ''/'' \<notin> set (Port u) \<and> CHR ''?'' \<notin> set (Port u) \<and>
     CHR ''?'' \<notin> set (Path u) \<and> (Path u = [] \<or> hd (Path u) = CHR ''/'') \<and>
     (QueryString u = [] \<or> hd (QueryString u) = CHR ''?'') \<and>
     (Path u = [] \<longrightarrow> CHR ''/'' \<notin> set (QueryString u)) \<and>
     authority u @ Path u \<noteq> [] \<and> hd (authority u @ Path u) \<noteq> CHR 0x00"

text \<open>What the parser's positions are on a rendered URL.\<close>

lemma find_query:
  "wf_uri u \<Longrightarrow> find_chr (render u) 0 (length (render u)) (CHR ''?'')
     = Inr (length (Protocol u) + 3 + length (authority u) + length (Path u))"
  using find_chr_to [of "CHR ''?''" "Protocol u @ ''://'' @ authority u @ Path u" 0 "[]"
      "length (render u)" "QueryString u" "[]"]
  by (auto simp: wf_uri_def render_def authority_def)

lemma find_colon:
  "wf_uri u \<Longrightarrow> find_chr (render u) 0 (length (render u)) (CHR '':'') = Inr (length (Protocol u))"
  using find_chr_to [of "CHR '':''" "Protocol u" 0 "[]" "length (render u)"
      "''://'' @ authority u @ Path u @ QueryString u" "[]"]
  by (simp add: wf_uri_def render_def)

lemma find_path:
  "wf_uri u \<Longrightarrow> find_chr (render u) (length (Protocol u) + 3) (length (render u)) (CHR ''/'')
     = Inr (if Path u = [] then length (render u) else length (Protocol u) + 3 + length (authority u))"
  using find_chr_to [of "CHR ''/''" "authority u" "length (Protocol u) + 3" "Protocol u @ ''://''"
      "length (render u)" "Path u @ QueryString u" "[]"]
    find_chr_to [of "CHR ''/''" "authority u @ QueryString u" "length (Protocol u) + 3"
      "Protocol u @ ''://''" "length (render u)" "[]" "[]"]
  by (auto simp: wf_uri_def render_def authority_def)

lemma find_port:
  "wf_uri u \<Longrightarrow>
   find_chr (render u) (length (Protocol u) + 3) (length (Protocol u) + 3 + length (authority u)) (CHR '':'')
     = Inr (length (Protocol u) + 3 + length (Host u))"
  using find_chr_to [of "CHR '':''" "Host u" "length (Protocol u) + 3" "Protocol u @ ''://''"
      "length (Protocol u) + 3 + length (authority u)" "if Port u = [] then [] else CHR '':'' # Port u"
      "Path u @ QueryString u"]
  by (auto simp: wf_uri_def render_def authority_def)

lemma after_authority:
  "wf_uri u \<Longrightarrow> length (Protocol u) + 3 + length (authority u) \<noteq> length (render u) \<Longrightarrow>
   render u ! (length (Protocol u) + 3 + length (authority u)) \<noteq> CHR '':''"
  by (auto simp: wf_uri_def render_def nth_append hd_append hd_conv_nth split: if_splits)

lemma length_render:
  "length (render u) = length (Protocol u) + 3 + length (authority u) + length (Path u) + length (QueryString u)"
  by (simp add: render_def)

lemma protocol_taken:
  assumes "wf_uri u"
  shows "length (c_str (render u) (length (Protocol u))) > 3 \<and>
         take 3 (c_str (render u) (length (Protocol u))) = ''://''"
  using c_str_protocol [of "authority u @ Path u" "length (Protocol u)" "Protocol u" "QueryString u"] assms
  by (simp add: wf_uri_def render_def)

lemma substr_host:
  "substr_range (render u) (length (Protocol u) + 3) (length (Protocol u) + 3 + length (Host u)) = Inr (Host u)"
  by (rule substr_rangeI [where a = "Protocol u @ ''://''"
        and d = "drop (length (Host u)) (authority u) @ Path u @ QueryString u"])
    (simp_all add: render_def authority_def)

lemma substr_port:
  "Port u \<noteq> [] \<Longrightarrow>
   substr_range (render u) (length (Protocol u) + 3 + length (Host u) + 1)
     (length (Protocol u) + 3 + length (authority u)) = Inr (Port u)"
  by (rule substr_rangeI [where a = "Protocol u @ ''://'' @ Host u @ '':''" and d = "Path u @ QueryString u"])
    (simp_all add: render_def authority_def)

lemma substr_path:
  "substr_range (render u) (length (Protocol u) + 3 + length (authority u))
     (length (Protocol u) + 3 + length (authority u) + length (Path u)) = Inr (Path u)"
  by (rule substr_rangeI [where a = "Protocol u @ ''://'' @ authority u" and d = "QueryString u"])
    (simp_all add: render_def)

lemma substr_query:
  "substr_range (render u) (length (Protocol u) + 3 + length (authority u) + length (Path u))
     (length (render u)) = Inr (QueryString u)"
  by (rule substr_rangeI [where a = "Protocol u @ ''://'' @ authority u @ Path u" and d = "[]"])
    (simp_all add: render_def)

lemma colon_at_host_end:
  "Port u \<noteq> [] \<Longrightarrow> length (Protocol u) + 3 + length (Host u) < length (render u) \<and>
   render u ! (length (Protocol u) + 3 + length (Host u)) = CHR '':''"
  by (simp add: render_def authority_def nth_append)

lemma parse_render: "wf_uri u \<Longrightarrow> Uri_Parse (render u) = Inr u"
proof -
  assume wf: "wf_uri u"
  let ?p = "length (Protocol u)"
  have ne: "length (render u) \<noteq> 0" by (simp add: render_def)
  have colon: "?p \<noteq> length (render u)" by (simp add: render_def)
  have take_prot: "take ?p (render u) = Protocol u" by (simp add: render_def)
  have lim: "(if (if Path u = [] then length (render u) else ?p + 3 + length (authority u)) \<noteq> length (render u)
              then (if Path u = [] then length (render u) else ?p + 3 + length (authority u))
              else ?p + 3 + length (authority u) + length (Path u))
             = ?p + 3 + length (authority u)"
    by (auto simp: length_render)
  have port: "(if ?p + 3 + length (Host u) \<noteq> length (render u)
                  \<and> render u ! (?p + 3 + length (Host u)) = CHR '':''
               then substr_range (render u) (?p + 3 + length (Host u) + 1) (?p + 3 + length (authority u))
               else Inr []) = Inr (Port u)"
  proof (cases "Port u = []")
    case True
    then have "length (Host u) = length (authority u)" by (simp add: authority_def)
    with after_authority [OF wf] True show ?thesis by auto
  next
    case False
    with colon_at_host_end [OF False] substr_port [OF False] show ?thesis by simp
  qed
  have path: "(if (if Path u = [] then length (render u) else ?p + 3 + length (authority u)) \<noteq> length (render u)
               then substr_range (render u)
                      (if Path u = [] then length (render u) else ?p + 3 + length (authority u))
                      (?p + 3 + length (authority u) + length (Path u))
               else Inr []) = Inr (Path u)"
    using substr_path [of u] by (auto simp: length_render)
  have query: "(if ?p + 3 + length (authority u) + length (Path u) \<noteq> length (render u)
                then substr_range (render u) (?p + 3 + length (authority u) + length (Path u)) (length (render u))
                else Inr []) = Inr (QueryString u)"
    using substr_query [of u] by (auto simp: length_render)
  show ?thesis
    unfolding Uri_Parse_def Let_def if_not_P [OF ne] find_query [OF wf] find_colon [OF wf] rbind_Inr
      if_P [OF colon] if_P [OF protocol_taken [OF wf]] prod.case find_path [OF wf] lim
      find_port [OF wf] substr_host port path query take_prot
    by simp
qed

text \<open>C28: Parsing a rendered URL gives back its protocol, host, port, path and query string, for every URL
  whose parts hold no delimiter of a later part and whose query holds no slash unless there is a
  path.\<close>

theorem Uri_Parse_render: "wf_uri u \<Longrightarrow> Uri_Parse (render u) = Inr u"
  by (rule parse_render)

lemma Uri_Parse_render_witness:
  "Uri_Parse ''tcp://127.0.0.1:3306/test?x=1''
     = Inr \<lparr>QueryString = ''?x=1'', Path = ''/test'', Protocol = ''tcp'', Host = ''127.0.0.1'', Port = ''3306''\<rparr>"
  using Uri_Parse_render [of "\<lparr>QueryString = ''?x=1'', Path = ''/test'', Protocol = ''tcp'',
      Host = ''127.0.0.1'', Port = ''3306''\<rparr>"]
  by (simp add: wf_uri_def render_def authority_def)

text \<open>A URL without a path whose query string holds a slash makes the parser take the slash for the
  start of the path, behind the start of the query: it builds a string from a reversed iterator
  range, which is undefined behaviour.\<close>

theorem Uri_Parse_slash_in_query:
  assumes h: "CHR '':'' \<notin> set h" "CHR ''/'' \<notin> set h" "CHR ''?'' \<notin> set h" "h \<noteq> []" "hd h \<noteq> CHR 0x00"
    and p: "CHR '':'' \<notin> set p" "CHR ''?'' \<notin> set p"
    and q: "CHR ''/'' \<notin> set q" "CHR '':'' \<notin> set q"
  shows "Uri_Parse (p @ ''://'' @ h @ ''?'' @ q @ ''/'' @ r) = Inl InvalidRange"
proof -
  let ?s = "p @ ''://'' @ h @ ''?'' @ q @ ''/'' @ r"
  have qs: "find_chr ?s 0 (length ?s) (CHR ''?'') = Inr (length p + 3 + length h)"
    using find_chr_to [of "CHR ''?''" "p @ ''://'' @ h" 0 "[]" "length ?s" "''?'' @ q @ ''/'' @ r" "[]"] h p
    by simp
  have co: "find_chr ?s 0 (length ?s) (CHR '':'') = Inr (length p)"
    using find_chr_to [of "CHR '':''" "p" 0 "[]" "length ?s" "''://'' @ h @ ''?'' @ q @ ''/'' @ r" "[]"] p
    by simp
  have pa: "find_chr ?s (length p + 3) (length ?s) (CHR ''/'') = Inr (length p + 4 + length h + length q)"
    using find_chr_to [of "CHR ''/''" "h @ ''?'' @ q" "length p + 3" "p @ ''://''" "length ?s"
        "''/'' @ r" "[]"] h q
    by simp
  have po: "find_chr ?s (length p + 3) (length p + 4 + length h + length q) (CHR '':'')
              = Inr (length p + 4 + length h + length q)"
    using find_chr_to [of "CHR '':''" "h @ ''?'' @ q" "length p + 3" "p @ ''://''"
        "length p + 4 + length h + length q" "[]" "''/'' @ r"] h q
    by simp
  have ho: "substr_range ?s (length p + 3) (length p + 4 + length h + length q) = Inr (h @ ''?'' @ q)"
    using substr_range_mid [of "length p + 3" "p @ ''://''" "length p + 4 + length h + length q"
        "h @ ''?'' @ q" "''/'' @ r"] by simp
  have sl: "?s ! (length p + 4 + length h + length q) = CHR ''/''"
    by (simp add: nth_append)
  have ne: "length ?s \<noteq> 0" "length p \<noteq> length ?s" "length p + 4 + length h + length q \<noteq> length ?s"
    by simp_all
  have nosl: "\<not> (length p + 4 + length h + length q \<noteq> length ?s
                 \<and> ?s ! (length p + 4 + length h + length q) = CHR '':'')"
    unfolding sl by simp
  have rev: "substr_range ?s (length p + 4 + length h + length q) (length p + 3 + length h) = Inl InvalidRange"
    by (simp add: substr_range_def)
  have prot: "length (c_str ?s (length p)) > 3 \<and> take 3 (c_str ?s (length p)) = ''://''"
    using c_str_protocol [OF h(4,5), of "length p" p "''?'' @ q @ ''/'' @ r"] by simp
  show ?thesis
    unfolding Uri_Parse_def Let_def if_not_P [OF ne(1)] qs co rbind_Inr if_P [OF ne(2)] if_P [OF prot]
      prod.case pa if_P [OF ne(3)] po ho if_not_P [OF nosl] rev rbind_Inl
    by (rule refl)
qed

lemma Uri_Parse_slash_in_query_witness: "Uri_Parse ''tcp://host?x=/a'' = Inl InvalidRange"
  using Uri_Parse_slash_in_query [of "''host''" "''tcp''" "''x=''" "''a''"] by simp

end
