(* ===== verification/Pareto.thy ===== *)
theory Pareto
  imports Config
begin

text \<open>
  \<open>pareto.hpp\<close>: the generator of skewed numbers. The draws of \<open>std::default_random_engine\<close> through
  \<open>uniform_real_distribution{0.0, 1.0}\<close> are an argument \<open>u\<close> of the operations, with
  \<open>0 \<le> u < 1\<close>. The locale is the bound that the drivers and the preparer rely on when they ask for
  a count between 1 and a maximum.
\<close>

section \<open>The contract of a bounded generator\<close>

locale skewed_gen =
  fixes gen :: "int \<Rightarrow> int \<Rightarrow> real \<Rightarrow> int"
  assumes gen_down: "b < a \<Longrightarrow> 0 \<le> u \<Longrightarrow> u < 1 \<Longrightarrow> b + 1 \<le> gen a b u \<and> gen a b u \<le> a"
begin

lemma gen_count: "0 < a \<Longrightarrow> 0 \<le> u \<Longrightarrow> u < 1 \<Longrightarrow> 1 \<le> gen a 0 u \<and> gen a 0 u \<le> a"
  using gen_down [of 0 a u] by simp

lemma gen_never_end: "b < a \<Longrightarrow> 0 \<le> u \<Longrightarrow> u < 1 \<Longrightarrow> gen a b u \<noteq> b"
  using gen_down [of b a u] by simp

end

section \<open>The generator\<close>

record pareto =
  pareto_h :: real
  pareto_power :: real

text \<open>The seed: the configured one, or a value of \<open>std::random_device\<close> when that is 0.\<close>

definition choose_seed :: "u32 \<Rightarrow> u32 \<Rightarrow> u32" where
  "choose_seed configured rd = (if configured = 0 then rd else configured)"

definition ParetoGenerator :: "real \<Rightarrow> pareto res" where
  "ParetoGenerator h =
     (if h \<le> 1 then Inl (RuntimeError ''Incorrect Pareto alpha'')
      else Inr \<lparr>pareto_h = h, pareto_power = - 1 / (h - 1)\<rparr>)"

definition GetNext_int :: "pareto \<Rightarrow> int \<Rightarrow> int \<Rightarrow> real \<Rightarrow> int" where
  "GetNext_int pg a b u = a + trunc (of_int (b - a + 1) / (1 - u) powr pareto_power pg)"

definition GetNext_real :: "pareto \<Rightarrow> real \<Rightarrow> real \<Rightarrow> real \<Rightarrow> real" where
  "GetNext_real pg a b u = a + (b - a + 1) / (1 - u) powr pareto_power pg"

definition pareto_ok :: "pareto \<Rightarrow> bool" where
  "pareto_ok pg \<longleftrightarrow> pareto_power pg < 0"

lemma ParetoGenerator_ok: "ParetoGenerator h = Inr pg \<Longrightarrow> pareto_ok pg"
  by (auto simp: ParetoGenerator_def pareto_ok_def split: if_splits)

lemma powr_ge_1:
  assumes "pareto_ok pg" and "0 \<le> u" and "u < 1"
  shows "1 \<le> (1 - u) powr pareto_power pg"
proof -
  have "1 powr pareto_power pg \<le> (1 - u) powr pareto_power pg"
    using assms by (intro powr_mono2') (simp_all add: pareto_ok_def)
  then show ?thesis by simp
qed

text \<open>Dividing by at least 1 and truncating moves towards 0.\<close>

lemma trunc_div_neg: "d \<le> 0 \<Longrightarrow> 1 \<le> p \<Longrightarrow> d \<le> trunc (of_int d / p) \<and> trunc (of_int d / p) \<le> 0"
proof -
  assume d: "d \<le> 0" and p: "1 \<le> p"
  have "of_int d * p \<le> of_int d"
    using d p mult_left_mono_neg [of 1 p "of_int d :: real"] by simp
  then have "of_int d \<le> of_int d / p"
    using p by (simp add: pos_le_divide_eq)
  moreover have le0: "of_int d / p \<le> 0"
    using d p by (simp add: divide_nonpos_pos)
  ultimately show ?thesis
    unfolding trunc_neg [OF le0] by linarith
qed

lemma trunc_div_nonneg: "0 \<le> d \<Longrightarrow> 1 \<le> p \<Longrightarrow> 0 \<le> trunc (of_int d / p) \<and> trunc (of_int d / p) \<le> d"
proof -
  assume d: "0 \<le> d" and p: "1 \<le> p"
  have "of_int d \<le> of_int d * p"
    using d p mult_left_mono [of 1 p "of_int d :: real"] by simp
  then have "of_int d / p \<le> of_int d"
    using p by (simp add: pos_divide_le_eq)
  moreover have ge0: "0 \<le> of_int d / p"
    using d p by simp
  ultimately show ?thesis
    unfolding trunc_nonneg [OF ge0] by linarith
qed

lemma GetNext_int_down:
  assumes "pareto_ok pg" and "b < a" and "0 \<le> u" and "u < 1"
  shows "b + 1 \<le> GetNext_int pg a b u \<and> GetNext_int pg a b u \<le> a"
  using trunc_div_neg [of "b - a + 1" "(1 - u) powr pareto_power pg"] powr_ge_1 [of pg u] assms
  by (simp add: GetNext_int_def)

lemma GetNext_int_up:
  assumes "pareto_ok pg" and "a \<le> b" and "0 \<le> u" and "u < 1"
  shows "a \<le> GetNext_int pg a b u \<and> GetNext_int pg a b u \<le> b + 1"
  using trunc_div_nonneg [of "b - a + 1" "(1 - u) powr pareto_power pg"] powr_ge_1 [of pg u] assms
  by (simp add: GetNext_int_def)

lemma GetNext_real_up:
  assumes "pareto_ok pg" and "a \<le> b" and "0 \<le> u" and "u < 1"
  shows "a < GetNext_real pg a b u \<and> GetNext_real pg a b u \<le> b + 1"
proof -
  have p: "1 \<le> (1 - u) powr pareto_power pg" using assms by (simp add: powr_ge_1)
  have d: "0 < b - a + 1" using assms(2) by simp
  have "b - a + 1 \<le> (b - a + 1) * (1 - u) powr pareto_power pg"
    using mult_left_mono [OF p, of "b - a + 1"] d by simp
  moreover have pos: "0 < (1 - u) powr pareto_power pg" using p by linarith
  ultimately have "(b - a + 1) / (1 - u) powr pareto_power pg \<le> b - a + 1"
    by (subst pos_divide_le_eq)
  moreover have "0 < (b - a + 1) / (1 - u) powr pareto_power pg" using d pos by (rule divide_pos_pos)
  ultimately show ?thesis by (simp add: GetNext_real_def)
qed

text \<open>At the draw 0 both overloads return the number after \<open>b\<close>.\<close>

lemma GetNext_at_0: "GetNext_int pg a b 0 = b + 1" "GetNext_real pg x y 0 = y + 1"
proof -
  have "trunc (of_int (b - a + 1)) = b - a + 1" by (rule trunc_of_int)
  then show "GetNext_int pg a b 0 = b + 1" unfolding GetNext_int_def by simp
qed (simp add: GetNext_real_def)

text \<open>The generator that \<open>main\<close> creates.\<close>

definition main_pareto :: pareto where
  "main_pareto = \<lparr>pareto_h = 1.04795, pareto_power = - 1 / (1.04795 - 1)\<rparr>"

lemma main_pareto: "ParetoGenerator 1.04795 = Inr main_pareto"
  by (simp add: ParetoGenerator_def main_pareto_def)

lemma main_pareto_ok [simp]: "pareto_ok main_pareto"
  by (rule ParetoGenerator_ok [OF main_pareto])

interpretation pg: skewed_gen "GetNext_int main_pareto"
  by unfold_locales (rule GetNext_int_down [OF main_pareto_ok])

text \<open>Every generator that the constructor accepts keeps to its range, but the range is not the
  \<open>[a, b]\<close> of the comment: counting down from \<open>a\<close> to \<open>b\<close> the numbers are between \<open>b + 1\<close> and \<open>a\<close>, so
  \<open>b\<close> itself never occurs, and counting up they are between \<open>a\<close> and \<open>b + 1\<close>; the draw 0 gives \<open>b + 1\<close>
  in both cases.\<close>

theorem GetNext_range:
  assumes "ParetoGenerator h = Inr g" and "0 \<le> u" and "u < 1"
  shows "(if b < a then b + 1 \<le> GetNext_int g a b u \<and> GetNext_int g a b u \<le> a
          else a \<le> GetNext_int g a b u \<and> GetNext_int g a b u \<le> b + 1) \<and>
    GetNext_int g a b 0 = b + 1"
  using GetNext_int_down [of g b a u] GetNext_int_up [of g a b u] ParetoGenerator_ok [OF assms(1)] assms(2,3)
    GetNext_at_0(1) [of g a b]
  by simp

lemma GetNext_range_witness:
  "1 \<le> GetNext_int main_pareto 1000 0 (1 / 2) \<and> GetNext_int main_pareto 1000 0 (1 / 2) \<le> 1000 \<and>
   GetNext_int main_pareto 1 10 0 = 11"
  using GetNext_range [OF main_pareto, of "1 / 2" 0 1000] GetNext_range [OF main_pareto, of 0 10 1] by simp

end
