(* ===== verification/SampledStats.thy ===== *)
theory SampledStats
  imports Message RunningMean Pareto
begin

text \<open>
  \<open>SampledStats.hpp\<close> and \<open>SampledStats.cpp\<close>: per-thread statistics over a bounded sample of the
  measurements of each operation type, printed as CSV lines. The random decisions of \<open>addStats\<close>
  are arguments: \<open>u\<close> is the value of \<open>unif(gen)\<close>, \<open>r\<close> that of \<open>rand()\<close>. How the stream prints a
  \<open>double\<close> is the parameter \<open>fmt\<close>.
\<close>

section \<open>The object\<close>

record sampled_stats =
  numops :: "int list"
  maxsamples :: int
  samples :: "int list list"
  opsSinceReset :: "int list"
  minimums :: "int list"
  maximums :: "int list"
  errors :: "int list"
  threadID :: int

definition SampledStats :: "int \<Rightarrow> int \<Rightarrow> sampled_stats" where
  "SampledStats tid mx =
     \<lparr>numops = replicate MAX_OPTYPES 0,
      maxsamples = mx,
      samples = replicate MAX_OPTYPES (replicate (nat mx) 0),
      opsSinceReset = replicate MAX_OPTYPES 0,
      minimums = replicate MAX_OPTYPES 0,
      maximums = replicate MAX_OPTYPES 0,
      errors = replicate MAX_OPTYPES 0,
      threadID = tid\<rparr>"

text \<open>
  The global engine is default-constructed, with its default seed. The first constructor call means to
  seed it, but declares an engine (and a distribution) of its own, which ends with the block: the
  second component is the seed of that engine.
\<close>

record sampling_globals =
  srand_init :: int
  gen_seed :: u32

definition sampling_start :: sampling_globals where
  "sampling_start = \<lparr>srand_init = 0, gen_seed = 5489\<rparr>"

definition seed_sampling :: "config \<Rightarrow> u32 \<Rightarrow> sampling_globals \<Rightarrow> sampling_globals \<times> u32 option" where
  "seed_sampling cfg rd gl =
     (if srand_init gl = 0
      then (let seed = choose_seed (randomSeed cfg) rd;
                local_gen = Some seed in
            (gl\<lparr>srand_init := srand_init gl + 1\<rparr>, local_gen))
      else (gl, None))"

section \<open>Recording a measurement\<close>

text \<open>
  Where the new value goes: the next free slot while there is one; then a random slot, with the
  probability \<open>maxsamples / opIndex\<close>, or nowhere.
\<close>

definition sample_slot :: "int \<Rightarrow> int \<Rightarrow> real \<Rightarrow> int \<Rightarrow> int option" where
  "sample_slot mx opIndex u r =
     (if opIndex < mx then Some opIndex
      else (let pReplace = of_int mx / of_int opIndex
            in if u < pReplace then Some (r smod mx) else None))"

definition addStats ::
  "sampled_stats \<Rightarrow> message_type \<Rightarrow> int \<Rightarrow> bool \<Rightarrow> real \<Rightarrow> int \<Rightarrow> sampled_stats res" where
  "addStats s type timetaken error u r =
     (let ty = int (op_ord type) in
      rbind (if error
             then rbind (arr_get (errors s) ty) (\<lambda>e. arr_set (errors s) ty (e + 1))
             else Inr (errors s)) (\<lambda>errs.
      rbind (arr_get (minimums s) ty) (\<lambda>mn.
      rbind (if mn = 0 \<or> mn > timetaken
             then arr_set (minimums s) ty (to_i32 timetaken) else Inr (minimums s)) (\<lambda>mins.
      rbind (arr_get (maximums s) ty) (\<lambda>mx.
      rbind (if timetaken > mx
             then arr_set (maximums s) ty (to_i32 timetaken) else Inr (maximums s)) (\<lambda>maxs.
      rbind (rbind (arr_get (numops s) ty) (\<lambda>n. arr_set (numops s) ty (n + 1))) (\<lambda>nops.
      rbind (arr_get (opsSinceReset s) ty) (\<lambda>opIndex.
      rbind (rbind (inc_i32 opIndex) (\<lambda>k. arr_set (opsSinceReset s) ty k)) (\<lambda>osr.
      rbind (case sample_slot (maxsamples s) opIndex u r of
               None \<Rightarrow> Inr (samples s)
             | Some i \<Rightarrow>
                 rbind (arr_get (samples s) ty) (\<lambda>row.
                 rbind (arr_set row i timetaken) (\<lambda>row'. arr_set (samples s) ty row'))) (\<lambda>smp.
      Inr (s\<lparr>errors := errs, minimums := mins, maximums := maxs, numops := nops,
             opsSinceReset := osr, samples := smp\<rparr>)))))))))))"

definition resetSamples :: "sampled_stats \<Rightarrow> sampled_stats" where
  "resetSamples s = s\<lparr>opsSinceReset := replicate MAX_OPTYPES 0\<rparr>"

definition getCount :: "sampled_stats \<Rightarrow> message_type \<Rightarrow> int res" where
  "getCount s type = arr_get (numops s) (int (op_ord type))"

section \<open>CSV output\<close>

definition csv_stream_header :: string where
  "csv_stream_header =
     ''threadID,timestamp,op,totalops,totalerrors,ops,'' @
     ''sampleDuration_us,sampleOps,mean_us,min_us,p25_us,p50_us,'' @
     ''p75_us,p90_us,p95_us,p99_us,max_us'' @ [CHR 0x0A]"

text \<open>\<open>writeCSVHeader\<close> writes it when the stream is good.\<close>

definition writeCSVHeader :: "bool \<Rightarrow> string \<Rightarrow> string" where
  "writeCSVHeader good out = (if good then out @ csv_stream_header else out)"

text \<open>The line for a type without samples.\<close>

definition empty_line :: "sampled_stats \<Rightarrow> message_type \<Rightarrow> int \<Rightarrow> int \<Rightarrow> int \<Rightarrow> int \<Rightarrow> string" where
  "empty_line s type nops errs sampleDuration timestamp =
     show_int (threadID s) @ '','' @ show_int timestamp @ '','' @ label_of type @ '','' @
     show_int nops @ '','' @ show_int errs @ '','' @ show_int 0 @ '','' @ show_int sampleDuration @
     '',0,,,,,,,,,'' @ [CHR 0x0A]"

text \<open>What a line reports of the sorted samples from \<open>start\<close> (inclusive) to \<open>end\<close> (exclusive).\<close>

record sample_report =
  rep_mean :: real
  rep_min :: int
  p25 :: int
  p50 :: int
  p75 :: int
  p90 :: int
  p95 :: int
  p99 :: int
  rep_max :: int

definition sort_range :: "int list \<Rightarrow> int \<Rightarrow> int \<Rightarrow> int list" where
  "sort_range row b e =
     take (nat b) row @ sort (take (nat (e - b)) (drop (nat b) row)) @ drop (nat e) row"

definition make_report :: "int list \<Rightarrow> int \<Rightarrow> int \<Rightarrow> sample_report res" where
  "make_report row start stop =
     (let elems = stop - start in
      rbind (arr_get row 0) (\<lambda>first.
      rbind (rfold (\<lambda>i m. rbind (arr_get row i) (\<lambda>v. Inr (addSample m (of_int v))))
               [start + 1..stop - 1] (RunningMean (of_int first))) (\<lambda>meanCalc.
      rbind (arr_get row start) (\<lambda>mn.
      rbind (arr_get row (start + elems sdiv 4)) (\<lambda>q25.
      rbind (arr_get row (start + elems sdiv 2)) (\<lambda>q50.
      rbind (arr_get row (stop - 1 - elems sdiv 4)) (\<lambda>q75.
      rbind (arr_get row (stop - 1 - elems sdiv 10)) (\<lambda>q90.
      rbind (arr_get row (stop - 1 - elems sdiv 20)) (\<lambda>q95.
      rbind (arr_get row (stop - 1 - elems sdiv 100)) (\<lambda>q99.
      rbind (arr_get row (stop - 1)) (\<lambda>mx.
      Inr \<lparr>rep_mean = mean meanCalc, rep_min = mn, p25 = q25, p50 = q50, p75 = q75,
           p90 = q90, p95 = q95, p99 = q99, rep_max = mx\<rparr>)))))))))))"

definition report_line ::
  "(real \<Rightarrow> string) \<Rightarrow> sampled_stats \<Rightarrow> message_type \<Rightarrow> int \<Rightarrow> int \<Rightarrow> int \<Rightarrow> int \<Rightarrow> int \<Rightarrow> int \<Rightarrow> sample_report \<Rightarrow> string"
where
  "report_line fmt s type nops errs ops sampleDuration timestamp elems rep =
     show_int (threadID s) @ '','' @ show_int timestamp @ '','' @ label_of type @ '','' @
     show_int nops @ '','' @ show_int errs @ '','' @ show_int ops @ '','' @ show_int sampleDuration @ '','' @
     show_int elems @ '','' @ fmt (rep_mean rep) @ '','' @ show_int (rep_min rep) @ '','' @
     show_int (p25 rep) @ '','' @ show_int (p50 rep) @ '','' @ show_int (p75 rep) @ '','' @
     show_int (p90 rep) @ '','' @ show_int (p95 rep) @ '','' @ show_int (p99 rep) @ '','' @
     show_int (rep_max rep) @ [CHR 0x0A]"

definition displayStats ::
  "(real \<Rightarrow> string) \<Rightarrow> bool \<Rightarrow> sampled_stats \<Rightarrow> message_type \<Rightarrow> int \<Rightarrow> int \<Rightarrow> int \<Rightarrow> int \<Rightarrow> string
   \<Rightarrow> (sampled_stats \<times> string) res" where
  "displayStats fmt good s type start stop sampleStartTime_ms nowTime_ms out =
     (if \<not> good then Inr (s, out)
      else
        (let ty = int (op_ord type);
             elems = stop - start;
             timestamp = nowTime_ms sdiv 1000;
             sampleDuration = nowTime_ms - sampleStartTime_ms in
         rbind (arr_get (numops s) ty) (\<lambda>nops.
         rbind (arr_get (errors s) ty) (\<lambda>errs.
         if elems \<le> 0
         then Inr (s, out @ empty_line s type nops errs sampleDuration timestamp)
         else
           rbind (arr_get (samples s) ty) (\<lambda>row.
           (let row' = sort_range row start stop in
           rbind (arr_set (samples s) ty row') (\<lambda>smp.
           rbind (make_report row' start stop) (\<lambda>rep.
           rbind (arr_get (opsSinceReset s) ty) (\<lambda>ops.
           Inr (s\<lparr>samples := smp\<rparr>,
                out @ report_line fmt s type nops errs ops sampleDuration timestamp elems rep))))))))))"

definition displayStats_types ::
  "(real \<Rightarrow> string) \<Rightarrow> bool \<Rightarrow> sampled_stats \<Rightarrow> int \<Rightarrow> int \<Rightarrow> message_type list \<Rightarrow> string
   \<Rightarrow> (sampled_stats \<times> string) res" where
  "displayStats_types fmt good s sampleStartTime_ms nowTime_ms msgTypes out =
     rfold (\<lambda>type (s, out).
              rbind (arr_get (opsSinceReset s) (int (op_ord type))) (\<lambda>ops.
              displayStats fmt good s type 0 (min (maxsamples s) ops) sampleStartTime_ms nowTime_ms out))
       msgTypes (s, out)"

definition displayStatsAll ::
  "(real \<Rightarrow> string) \<Rightarrow> bool \<Rightarrow> sampled_stats \<Rightarrow> int \<Rightarrow> int \<Rightarrow> string \<Rightarrow> (sampled_stats \<times> string) res" where
  "displayStatsAll fmt good s sampleStartTime_ms nowTime_ms out =
     displayStats_types fmt good s sampleStartTime_ms nowTime_ms
       (map (\<lambda>i. the (op_of i)) [0..<MAX_OPTYPES]) out"

end
