(* ===== verification/SampledHistory.thy ===== *)
theory SampledHistory
  imports SampledStats
begin

text \<open>
  What \<open>SampledStats\<close> keeps. A history is the list of \<open>addStats\<close> calls of one thread; \<open>ss_repr\<close> relates
  the arrays of the object to it.
\<close>

section \<open>Histories\<close>

record sample_event =
  ev_type :: message_type
  ev_time :: int
  ev_error :: bool
  ev_u :: real
  ev_r :: int

definition add_all :: "sampled_stats \<Rightarrow> sample_event list \<Rightarrow> sampled_stats res" where
  "add_all s evs = rfold (\<lambda>e s. addStats s (ev_type e) (ev_time e) (ev_error e) (ev_u e) (ev_r e)) evs s"

text \<open>
  One of the first four types; a time that fits \<open>int\<close>; the draws in the range of their generators.
\<close>

definition sample_ok :: "sample_event \<Rightarrow> bool" where
  "sample_ok e \<longleftrightarrow>
     op_ord (ev_type e) < MAX_OPTYPES \<and> 0 \<le> ev_time e \<and> ev_time e < 2147483648 \<and>
     0 \<le> ev_u e \<and> ev_u e < 1 \<and> 0 \<le> ev_r e"

definition times_of :: "sample_event list \<Rightarrow> nat \<Rightarrow> int list" where
  "times_of evs i = map ev_time (filter (\<lambda>e. op_ord (ev_type e) = i) evs)"

definition errors_of :: "sample_event list \<Rightarrow> nat \<Rightarrow> nat" where
  "errors_of evs i = length (filter (\<lambda>e. op_ord (ev_type e) = i \<and> ev_error e) evs)"

lemma times_of_snoc:
  "times_of (evs @ [e]) i = times_of evs i @ (if op_ord (ev_type e) = i then [ev_time e] else [])"
  by (simp add: times_of_def)

lemma errors_of_snoc:
  "errors_of (evs @ [e]) i = errors_of evs i + (if op_ord (ev_type e) = i \<and> ev_error e then 1 else 0)"
  by (simp add: errors_of_def)

lemma length_times_of: "length (times_of evs i) \<le> length evs"
  by (simp add: times_of_def)

definition ss_dims :: "int \<Rightarrow> sampled_stats \<Rightarrow> bool" where
  "ss_dims mx s \<longleftrightarrow>
     maxsamples s = mx \<and> length (numops s) = MAX_OPTYPES \<and> length (opsSinceReset s) = MAX_OPTYPES \<and>
     length (minimums s) = MAX_OPTYPES \<and> length (maximums s) = MAX_OPTYPES \<and>
     length (errors s) = MAX_OPTYPES \<and> length (samples s) = MAX_OPTYPES \<and>
     (\<forall>i<MAX_OPTYPES. length (samples s ! i) = nat mx)"

text \<open>The minimum as the code keeps it: 0 stands for "no value yet".\<close>

definition min_kept :: "int list \<Rightarrow> int" where
  "min_kept ths = fold (\<lambda>t m. if m = 0 \<or> m > t then t else m) ths 0"

lemma min_kept_snoc:
  "min_kept (ths @ [t]) = (if min_kept ths = 0 \<or> min_kept ths > t then t else min_kept ths)"
  by (simp add: min_kept_def)

lemma min_kept_Nil [simp]: "min_kept [] = 0"
  by (simp add: min_kept_def)

lemma min_kept_pos:
  "ths \<noteq> [] \<Longrightarrow> (\<And>t. t \<in> set ths \<Longrightarrow> 0 < t) \<Longrightarrow> min_kept ths = Min (set ths)"
proof (induction ths rule: rev_nonempty_induct)
  case (snoc t ths)
  then have "min_kept ths = Min (set ths)" by simp
  moreover from snoc have "Min (set ths) \<in> set ths" by simp
  then have "Min (set ths) \<noteq> 0" using snoc.prems by fastforce
  moreover have "Min (set (ths @ [t])) = min t (Min (set ths))" using snoc.hyps by simp
  ultimately show ?case unfolding min_kept_snoc min_def by (simp only: linorder_not_less [symmetric]) simp
qed (simp add: min_kept_def)

text \<open>A measurement of 0 ms is forgotten by the next one.\<close>

lemma min_kept_after_zero:
  assumes "\<And>t. t \<in> set us \<Longrightarrow> 0 \<le> t"
  shows "min_kept (us @ 0 # ths) = min_kept ths"
proof -
  from assms have "0 \<le> min_kept us"
    by (induction us rule: rev_induct) (auto simp: min_kept_snoc)
  then have "min_kept (us @ [0]) = 0" by (auto simp: min_kept_snoc)
  then have "fold (\<lambda>t m. if m = 0 \<or> m > t then t else m) (us @ [0]) 0 = (0 :: int)"
    by (simp only: min_kept_def)
  then have "min_kept ((us @ [0]) @ ths) = min_kept ths"
    unfolding min_kept_def fold_append comp_apply by (simp only:)
  then show ?thesis by simp
qed

text \<open>The slots in use for one type.\<close>

definition used :: "int \<Rightarrow> sample_event list \<Rightarrow> nat \<Rightarrow> nat" where
  "used mx evs i = min (nat mx) (length (times_of evs i))"

definition ss_repr :: "int \<Rightarrow> sample_event list \<Rightarrow> sampled_stats \<Rightarrow> bool" where
  "ss_repr mx evs s \<longleftrightarrow>
     ss_dims mx s \<and>
     (\<forall>i<MAX_OPTYPES.
        numops s ! i = int (length (times_of evs i)) \<and>
        opsSinceReset s ! i = int (length (times_of evs i)) \<and>
        errors s ! i = int (errors_of evs i) \<and>
        minimums s ! i = min_kept (times_of evs i) \<and>
        maximums s ! i = Max (insert 0 (set (times_of evs i))) \<and>
        mset (take (used mx evs i) (samples s ! i)) \<subseteq># mset (times_of evs i))"

lemma ss_repr_init: "ss_repr mx [] (SampledStats tid mx)"
  by (simp add: ss_repr_def ss_dims_def SampledStats_def times_of_def errors_of_def used_def)

section \<open>One call\<close>

lemma smod_range: "0 \<le> r \<Longrightarrow> 0 < m \<Longrightarrow> 0 \<le> r smod m \<and> r smod m < (m :: int)"
  by (cases "r = 0") (simp_all add: signed_modulo_int_def)

text \<open>The slot is free and next, or any slot of a full row.\<close>

lemma sample_slot_cases:
  assumes "0 \<le> mx" and "0 \<le> k" and "0 \<le> u" and "0 \<le> r"
  obtains "sample_slot mx k u r = None" "mx \<le> k"
    | "sample_slot mx k u r = Some k" "k < mx"
    | j where "sample_slot mx k u r = Some j" "mx \<le> k" "0 \<le> j" "j < mx"
proof (cases "k < mx")
  case True
  then show thesis by (intro that(2)) (simp_all add: sample_slot_def)
next
  case False
  show thesis
  proof (cases "u < of_int mx / of_int k")
    case True
    then have "mx \<noteq> 0" using assms(3) by auto
    then have "0 \<le> r smod mx" "r smod mx < mx" using smod_range [of r mx] assms by auto
    with True False show thesis by (intro that(3)) (simp_all add: sample_slot_def Let_def)
  next
    case nouse: False
    with False show thesis by (intro that(1)) (simp_all add: sample_slot_def Let_def)
  qed
qed

text \<open>The new row, and what its used slots hold.\<close>

definition store :: "int list \<Rightarrow> int option \<Rightarrow> int \<Rightarrow> int list" where
  "store row slot t = (case slot of None \<Rightarrow> row | Some i \<Rightarrow> row[nat i := t])"

lemma length_store [simp]: "length (store row slot t) = length row"
  by (simp add: store_def split: option.split)

lemma store_subset:
  assumes row: "length row = nat mx" and mx: "0 \<le> mx" and u: "0 \<le> u" "0 \<le> r"
    and sub: "mset (take (min (nat mx) n) row) \<subseteq># H" and n: "k = int n"
  shows "mset (take (min (nat mx) (Suc n)) (store row (sample_slot mx k u r) t)) \<subseteq># add_mset t H"
proof -
  have k: "0 \<le> k" using n by simp
  from mx k u show ?thesis
  proof (cases rule: sample_slot_cases [of mx k u r])
    case 1
    with n have "min (nat mx) (Suc n) = min (nat mx) n" by simp
    moreover have "H \<subseteq># add_mset t H" by simp
    ultimately show ?thesis using 1 sub by (auto simp: store_def intro: subset_mset.trans)
  next
    case 2
    with n row have lt: "n < length row" "min (nat mx) (Suc n) = Suc n" "min (nat mx) n = n" by simp_all
    have "take (Suc n) (row[n := t]) = take n row @ [t]"
      using lt(1) by (simp add: take_Suc_conv_app_nth)
    with 2 n lt sub show ?thesis by (simp add: store_def)
  next
    case (3 j)
    with n have m: "min (nat mx) (Suc n) = nat mx" "min (nat mx) n = nat mx" by simp_all
    with row sub have "mset row \<subseteq># H" by simp
    from mset_update_subset [OF this, of "nat j" t] 3 row m show ?thesis by (simp add: store_def)
  qed
qed

lemma addStats_eq:
  assumes dims: "ss_dims mx s" and i: "op_ord ty < MAX_OPTYPES" and mx: "0 \<le> mx"
    and k: "opsSinceReset s ! op_ord ty = int n" "n < 2147483647"
    and u: "0 \<le> u" "0 \<le> r"
  shows "addStats s ty t err u r = Inr (s\<lparr>
     errors := (if err then (errors s)[op_ord ty := errors s ! op_ord ty + 1] else errors s),
     minimums := (if minimums s ! op_ord ty = 0 \<or> minimums s ! op_ord ty > t
                  then (minimums s)[op_ord ty := to_i32 t] else minimums s),
     maximums := (if t > maximums s ! op_ord ty
                  then (maximums s)[op_ord ty := to_i32 t] else maximums s),
     numops := (numops s)[op_ord ty := numops s ! op_ord ty + 1],
     opsSinceReset := (opsSinceReset s)[op_ord ty := int n + 1],
     samples := (samples s)[op_ord ty := store (samples s ! op_ord ty) (sample_slot mx (int n) u r) t]\<rparr>)"
proof -
  have smp: "(case sample_slot mx (int n) u r of
               None \<Rightarrow> Inr (samples s)
             | Some j \<Rightarrow> rbind (arr_get (samples s) (int (op_ord ty)))
                 (\<lambda>row. rbind (arr_set row j t) (\<lambda>row'. arr_set (samples s) (int (op_ord ty)) row')))
        = Inr ((samples s)[op_ord ty := store (samples s ! op_ord ty) (sample_slot mx (int n) u r) t])"
  proof (rule sample_slot_cases [of mx "int n" u r])
    fix j
    assume "sample_slot mx (int n) u r = Some j" "0 \<le> j" "j < mx"
    with dims i show ?thesis by (simp add: store_def arr_set_def arr_get_ok ss_dims_def)
  qed (use dims i mx u in \<open>auto simp: store_def arr_set_def arr_get_ok ss_dims_def\<close>)
  show ?thesis
    using dims i k smp
    by (simp add: addStats_def ss_dims_def arr_get_ok arr_set_ok inc_i32_def Let_def)
qed

section \<open>Any sequence of calls\<close>

lemma addStats_repr:
  assumes repr: "ss_repr mx evs s" and ok: "sample_ok e" and mx: "0 \<le> mx"
    and len: "length evs < 2147483647"
  shows "\<exists>s'. addStats s (ev_type e) (ev_time e) (ev_error e) (ev_u e) (ev_r e) = Inr s'
              \<and> ss_repr mx (evs @ [e]) s'"
proof -
  let ?i = "op_ord (ev_type e)"
  from repr have dims: "ss_dims mx s" by (simp add: ss_repr_def)
  from ok have i: "?i < MAX_OPTYPES" and u: "0 \<le> ev_u e" "0 \<le> ev_r e"
    and t: "to_i32 (ev_time e) = ev_time e"
    by (simp_all add: sample_ok_def to_i32_id)
  have k: "opsSinceReset s ! ?i = int (length (times_of evs ?i))"
    using repr i by (simp add: ss_repr_def)
  have n: "length (times_of evs ?i) < 2147483647"
    using length_times_of [of evs ?i] len by linarith
  note eq = addStats_eq [OF dims i mx k n u, of "ev_time e" "ev_error e"]
  have row: "length (samples s ! ?i) = nat mx" using dims i by (simp add: ss_dims_def)
  have sub: "mset (take (used mx evs ?i) (samples s ! ?i)) \<subseteq># mset (times_of evs ?i)"
    using repr i by (simp add: ss_repr_def)
  note sub' = store_subset [OF row mx u sub [unfolded used_def] refl, of "ev_time e"]
  let ?r = "projr (addStats s (ev_type e) (ev_time e) (ev_error e) (ev_u e) (ev_r e))"
  have r: "addStats s (ev_type e) (ev_time e) (ev_error e) (ev_u e) (ev_r e) = Inr ?r"
    unfolding eq by simp
  have "ss_dims mx ?r"
    unfolding eq using dims row i by (auto simp: ss_dims_def nth_list_update)
  moreover have "numops ?r ! j = int (length (times_of (evs @ [e]) j)) \<and>
      opsSinceReset ?r ! j = int (length (times_of (evs @ [e]) j)) \<and>
      errors ?r ! j = int (errors_of (evs @ [e]) j) \<and>
      minimums ?r ! j = min_kept (times_of (evs @ [e]) j) \<and>
      maximums ?r ! j = Max (insert 0 (set (times_of (evs @ [e]) j))) \<and>
      mset (take (used mx (evs @ [e]) j) (samples ?r ! j)) \<subseteq># mset (times_of (evs @ [e]) j)"
    if j: "j < MAX_OPTYPES" for j
  proof (cases "j = ?i")
    case True
    have "max (maximums s ! ?i) (ev_time e) = Max (insert 0 (set (times_of (evs @ [e]) ?i)))"
      using repr i
      by (simp add: ss_repr_def times_of_snoc insert_commute [of 0] max.commute)
    then have "maximums ?r ! ?i = Max (insert 0 (set (times_of (evs @ [e]) ?i)))"
      unfolding eq using dims i t by (auto simp: ss_dims_def)
    moreover have "minimums ?r ! ?i = min_kept (times_of (evs @ [e]) ?i)"
      unfolding eq using repr dims i t by (auto simp: ss_repr_def ss_dims_def times_of_snoc min_kept_snoc)
    ultimately show ?thesis
      unfolding True unfolding eq using repr dims i sub'
      by (simp add: ss_repr_def ss_dims_def times_of_snoc errors_of_snoc used_def)
  next
    case False
    then show ?thesis
      unfolding eq using repr j
      by (simp add: ss_repr_def times_of_snoc errors_of_snoc used_def)
  qed
  ultimately have "ss_repr mx (evs @ [e]) ?r" by (simp add: ss_repr_def)
  with r show ?thesis by blast
qed

lemma add_all_repr:
  assumes "list_all sample_ok evs" and mx: "0 \<le> mx" and "length evs \<le> 2147483647"
  shows "\<exists>s. add_all (SampledStats tid mx) evs = Inr s \<and> ss_repr mx evs s"
  using assms(1,3)
proof (induction evs rule: rev_induct)
  case Nil
  show ?case by (simp add: add_all_def ss_repr_init)
next
  case (snoc e evs)
  then obtain s where s: "add_all (SampledStats tid mx) evs = Inr s" "ss_repr mx evs s" by auto
  from snoc.prems addStats_repr [OF s(2) _ mx, of e] s(1) show ?case
    by (auto simp: add_all_def rfold_append)
qed

text \<open>With the index of a type that has no row, the very first access fails.\<close>

lemma addStats_out_of_bounds:
  "ss_dims mx s \<Longrightarrow> MAX_OPTYPES \<le> op_ord ty \<Longrightarrow> addStats s ty t err u r = Inl OutOfBounds"
  by (simp add: addStats_def ss_dims_def arr_get_bad Let_def)
end
