(* ===== verification/SampledFacts.thy ===== *)
theory SampledFacts
  imports SampledHistory
begin

text \<open>
  What \<open>SampledStats\<close> prints: the lines that \<open>displayStats\<close> writes after a history, the order of the
  reported values, what they are, and the number of columns.
\<close>

section \<open>Reports\<close>

lemma rfold_samples:
  "(\<And>i. i \<in> set is \<Longrightarrow> 0 \<le> i \<and> i < int (length row)) \<Longrightarrow>
   rfold (\<lambda>i m. rbind (arr_get row i) (\<lambda>v. Inr (addSample m (of_int v)))) is m
     = Inr (foldl addSample m (map (\<lambda>i. of_int (row ! nat i)) is))"
  by (induction "is" arbitrary: m) (simp_all add: arr_get_def)

lemma map_upto_nth:
  assumes "n \<le> length row"
  shows "map (\<lambda>i. row ! nat i) [1..int n - 1] = drop 1 (take n row)"
  using assms by (intro nth_equalityI) (simp_all add: nat_add_distrib)

lemma arr_get_take: "k < n \<Longrightarrow> n \<le> length row \<Longrightarrow> arr_get row (int k) = Inr (take n row ! k)"
  by (simp add: arr_get_def)

text \<open>The report that a list of samples in order should give.\<close>

definition report_of :: "int list \<Rightarrow> sample_report" where
  "report_of ys = (let n = length ys in
    \<lparr>rep_mean = sum_list (map of_int ys) / real n,
     rep_min = ys ! 0, p25 = ys ! (n div 4), p50 = ys ! (n div 2),
     p75 = ys ! (n - 1 - n div 4), p90 = ys ! (n - 1 - n div 10),
     p95 = ys ! (n - 1 - n div 20), p99 = ys ! (n - 1 - n div 100),
     rep_max = ys ! (n - 1)\<rparr>)"

lemma make_report_eq:
  assumes n: "0 < n" "n \<le> length row"
  shows "make_report row 0 (int n) = Inr (report_of (take n row))"
proof -
  have top: "arr_get row (int n - 1 - int k) = Inr (take n row ! (n - 1 - k))" if "k < n" for k
  proof -
    from that have "int n - 1 - int k = int (n - 1 - k)" by simp
    with arr_get_take [of "n - 1 - k" n row] that n show ?thesis by (simp only:)
  qed
  have last: "arr_get row (int n - 1) = Inr (take n row ! (n - 1))" using top [of 0] n by simp
  have d: "n div 4 < n" "n div 2 < n" "n div 10 < n" "n div 20 < n" "n div 100 < n" using n by simp_all
  let ?ys = "map real_of_int (take n row)"
  have ys: "?ys = of_int (row ! 0) # map of_int (drop 1 (take n row))"
    using n by (cases row; cases n) simp_all
  have len: "length ?ys = n" using n by simp
  have rest: "map (\<lambda>i. real_of_int (row ! nat i)) [1..int n - 1] = map of_int (drop 1 (take n row))"
    unfolding map_upto_nth [OF n(2), symmetric] by (simp add: comp_def)
  have "rfold (\<lambda>i m. rbind (arr_get row i) (\<lambda>v. Inr (addSample m (of_int v)))) [0 + 1..int n - 1]
          (RunningMean (of_int (row ! 0)))
        = Inr (foldl addSample (RunningMean (of_int (row ! 0))) (map of_int (drop 1 (take n row))))"
    using rfold_samples [of "[1..int n - 1]" row "RunningMean (of_int (row ! 0))"] n rest by simp
  moreover have "mean (foldl addSample (RunningMean (of_int (row ! 0))) (map of_int (drop 1 (take n row))))
                   = sum_list ?ys / real n"
    using rm.mean_fold [of "of_int (row ! 0)" "map of_int (drop 1 (take n row))"]
    unfolding ys [symmetric] len by simp
  moreover have "arr_get row 0 = Inr (row ! 0)" "arr_get row 0 = Inr (take n row ! 0)"
    using n arr_get_take [of 0 n row] by (simp_all add: arr_get_def)
  ultimately show ?thesis
    using n
    by (simp add: make_report_def report_of_def Let_def sdiv_of_nat d top last min_absorb2
        arr_get_ok [OF less_le_trans [OF d(1) n(2)]] arr_get_ok [OF less_le_trans [OF d(2) n(2)]])
qed


text \<open>The reported values are in order, and the quantiles are samples.\<close>

lemma report_ordered:
  assumes "sorted ys" and "ys \<noteq> []"
  shows "rep_min (report_of ys) \<le> p25 (report_of ys) \<and> p25 (report_of ys) \<le> p50 (report_of ys) \<and>
    p50 (report_of ys) \<le> p75 (report_of ys) \<and> p75 (report_of ys) \<le> p90 (report_of ys) \<and>
    p90 (report_of ys) \<le> p95 (report_of ys) \<and> p95 (report_of ys) \<le> p99 (report_of ys) \<and>
    p99 (report_of ys) \<le> rep_max (report_of ys)"
proof -
  have n: "0 < length ys" using assms(2) by simp
  have le: "ys ! i \<le> ys ! j" if "i \<le> j" "j < length ys" for i j
    using assms(1) that by (rule sorted_nth_mono)
  from n show ?thesis
    unfolding report_of_def Let_def by (auto intro!: le)
qed

lemma report_members:
  assumes "ys \<noteq> []"
  shows "{rep_min (report_of ys), p25 (report_of ys), p50 (report_of ys), p75 (report_of ys),
          p90 (report_of ys), p95 (report_of ys), p99 (report_of ys), rep_max (report_of ys)} \<subseteq> set ys"
proof -
  have n: "0 < length ys" using assms by simp
  then show ?thesis by (simp add: report_of_def Let_def)
qed

lemma report_extremes:
  assumes "sorted ys" and "ys \<noteq> []"
  shows "rep_min (report_of ys) = Min (set ys)" and "rep_max (report_of ys) = Max (set ys)"
proof -
  have n: "0 < length ys" using assms(2) by simp
  have nth: "\<exists>i<length ys. y = ys ! i" if "y \<in> set ys" for y
    using that by (auto simp: in_set_conv_nth)
  show "rep_min (report_of ys) = Min (set ys)"
    using assms n by (auto simp: report_of_def Let_def intro!: Min_eqI [symmetric] sorted_nth_mono dest!: nth)
  show "rep_max (report_of ys) = Max (set ys)"
    using assms n by (auto simp: report_of_def Let_def intro!: Max_eqI [symmetric] sorted_nth_mono dest!: nth)
qed

section \<open>A displayed line\<close>

text \<open>The object after the display of one type: the used part of its row is sorted.\<close>

definition sorted_row :: "sampled_stats \<Rightarrow> nat \<Rightarrow> nat \<Rightarrow> sampled_stats" where
  "sorted_row s i n = s\<lparr>samples := (samples s)[i := sort (take n (samples s ! i)) @ drop n (samples s ! i)]\<rparr>"

lemma displayStats_eq:
  assumes dims: "ss_dims mx s" and i: "op_ord ty < MAX_OPTYPES" and n: "0 < n" "n \<le> nat mx"
  shows "displayStats fmt True s ty 0 (int n) t0 t1 out =
    Inr (sorted_row s (op_ord ty) n,
         out @ report_line fmt s ty (numops s ! op_ord ty) (errors s ! op_ord ty)
                 (opsSinceReset s ! op_ord ty) (t1 - t0) (t1 sdiv 1000) (int n)
                 (report_of (sort (take n (samples s ! op_ord ty)))))"
proof -
  let ?row = "samples s ! op_ord ty"
  have len: "length ?row = nat mx" using dims i by (simp add: ss_dims_def)
  have sr: "sort_range ?row 0 (int n) = sort (take n ?row) @ drop n ?row"
    by (simp add: sort_range_def)
  have rep: "make_report (sort (take n ?row) @ drop n ?row) 0 (int n) = Inr (report_of (sort (take n ?row)))"
    using make_report_eq [of n "sort (take n ?row) @ drop n ?row"] n len by simp
  show ?thesis
    using dims i n
    by (simp add: displayStats_def Let_def ss_dims_def arr_get_ok arr_set_ok sr rep sorted_row_def)
qed

lemma displayStats_empty:
  assumes dims: "ss_dims mx s" and i: "op_ord ty < MAX_OPTYPES"
  shows "displayStats fmt True s ty 0 0 t0 t1 out =
    Inr (s, out @ empty_line s ty (numops s ! op_ord ty) (errors s ! op_ord ty) (t1 - t0) (t1 sdiv 1000))"
  using dims i by (simp add: displayStats_def Let_def ss_dims_def arr_get_ok)

lemma sorted_row_dims: "ss_dims mx s \<Longrightarrow> i < MAX_OPTYPES \<Longrightarrow> ss_dims mx (sorted_row s i n)"
  by (auto simp: ss_dims_def sorted_row_def nth_list_update)

lemma sorted_row_repr:
  assumes repr: "ss_repr mx evs s" and i: "i < MAX_OPTYPES" and n: "n = used mx evs i"
  shows "ss_repr mx evs (sorted_row s i n)"
proof -
  from repr have dims: "ss_dims mx s" by (simp add: ss_repr_def)
  have "n \<le> length (samples s ! i)" using dims i n by (simp add: ss_dims_def used_def)
  then have "mset (take n (sort (take n (samples s ! i)) @ drop n (samples s ! i))) = mset (take n (samples s ! i))"
    by simp
  with repr i n sorted_row_dims [OF dims i, of n] dims show ?thesis
    by (auto simp: ss_repr_def sorted_row_def nth_list_update ss_dims_def)
qed

section \<open>The columns of the CSV stream\<close>

lemma commas_empty_line: "commas (empty_line s ty nops errs dur stamp) = 16"
  by (simp add: empty_line_def)

lemma commas_report_line:
  "commas (fmt (rep_mean rep)) = 0 \<Longrightarrow> commas (report_line fmt s ty nops errs ops dur stamp elems rep) = 16"
  by (simp add: report_line_def)

section \<open>Properties\<close>

text \<open>C18: Any sequence of measurements of the first four types is recorded without an error. For each
  type the object then holds the number of operations, the number of failed ones, the largest time,
  the smallest one as \<open>min_kept\<close> keeps it, and a sample that is part of the measured times; while
  there is room the sample is complete.\<close>

theorem sampled_history:
  assumes "list_all sample_ok evs" and "0 \<le> mx" and "length evs \<le> 2147483647"
  shows "\<exists>s. add_all (SampledStats tid mx) evs = Inr s \<and>
    (\<forall>i<MAX_OPTYPES.
       numops s ! i = int (length (times_of evs i)) \<and>
       errors s ! i = int (errors_of evs i) \<and>
       maximums s ! i = Max (insert 0 (set (times_of evs i))) \<and>
       minimums s ! i = min_kept (times_of evs i) \<and>
       mset (take (used mx evs i) (samples s ! i)) \<subseteq># mset (times_of evs i) \<and>
       (length (times_of evs i) \<le> nat mx \<longrightarrow>
          mset (take (length (times_of evs i)) (samples s ! i)) = mset (times_of evs i)))"
proof -
  from add_all_repr [OF assms] obtain s
    where s: "add_all (SampledStats tid mx) evs = Inr s" "ss_repr mx evs s" by blast
  have "mset (take (length (times_of evs i)) (samples s ! i)) = mset (times_of evs i)"
    if "i < MAX_OPTYPES" "length (times_of evs i) \<le> nat mx" for i
  proof -
    from that have u: "used mx evs i = length (times_of evs i)" by (simp add: used_def)
    have "length (samples s ! i) = nat mx" using s(2) that(1) by (simp add: ss_repr_def ss_dims_def)
    moreover have "mset (take (used mx evs i) (samples s ! i)) \<subseteq># mset (times_of evs i)"
      using s(2) that(1) by (simp add: ss_repr_def)
    moreover from calculation(1) that(2)
    have "size (mset (take (used mx evs i) (samples s ! i))) = size (mset (times_of evs i))"
      unfolding u by simp
    ultimately show ?thesis unfolding u by (intro full_submset)
  qed
  with s show ?thesis by (auto simp: ss_repr_def)
qed

definition sample_events :: "sample_event list" where
  "sample_events =
     [\<lparr>ev_type = InsertMetric, ev_time = 7, ev_error = False, ev_u = 0, ev_r = 0\<rparr>,
      \<lparr>ev_type = InsertMetric, ev_time = 3, ev_error = True, ev_u = 1 / 2, ev_r = 5\<rparr>,
      \<lparr>ev_type = InsertMetric, ev_time = 9, ev_error = False, ev_u = 1 / 4, ev_r = 3\<rparr>]"

lemma sample_events_ok: "list_all sample_ok sample_events" "length sample_events \<le> 2147483647"
  by (simp_all add: sample_events_def sample_ok_def MAX_OPTYPES_def)

lemma sampled_history_witness:
  "\<exists>s. add_all (SampledStats 0 2) sample_events = Inr s \<and>
     numops s ! op_ord InsertMetric = 3 \<and> errors s ! op_ord InsertMetric = 1 \<and>
     maximums s ! op_ord InsertMetric = 9 \<and> minimums s ! op_ord InsertMetric = 3"
proof -
  have "op_ord InsertMetric < MAX_OPTYPES" by (simp add: MAX_OPTYPES_def)
  moreover have "times_of sample_events (op_ord InsertMetric) = [7, 3, 9]"
    "errors_of sample_events (op_ord InsertMetric) = 1"
    by (simp_all add: times_of_def errors_of_def sample_events_def)
  moreover have "min_kept [7, 3, 9] = 3" by (simp add: min_kept_def)
  ultimately show ?thesis
    using sampled_history [OF sample_events_ok(1) _ sample_events_ok(2), of 2 0] by fastforce
qed

text \<open>The span that \<open>displayStats(msgTypes)\<close> shows is the part of the row in use.\<close>

lemma shown_span:
  "ss_repr mx evs s \<Longrightarrow> i < MAX_OPTYPES \<Longrightarrow> 0 \<le> mx \<Longrightarrow>
   min (maxsamples s) (opsSinceReset s ! i) = int (used mx evs i)"
  by (simp add: ss_repr_def ss_dims_def used_def)

lemma display_one:
  assumes repr: "ss_repr mx evs s" and i: "op_ord ty < MAX_OPTYPES" and mx: "0 \<le> mx"
  shows "\<exists>s' line. displayStats fmt True s ty 0 (min (maxsamples s) (opsSinceReset s ! op_ord ty)) t0 t1 out
             = Inr (s', out @ line) \<and> ss_repr mx evs s'"
proof (cases "used mx evs (op_ord ty) = 0")
  case True
  with repr i shown_span [OF repr i mx] displayStats_empty [of mx s ty fmt t0 t1 out]
  show ?thesis by (auto simp: ss_repr_def)
next
  case False
  have "used mx evs (op_ord ty) \<le> nat mx" by (simp add: used_def)
  with False repr i shown_span [OF repr i mx] displayStats_eq [of mx s ty "used mx evs (op_ord ty)" fmt t0 t1 out]
    sorted_row_repr [OF repr i refl]
  show ?thesis by (auto simp: ss_repr_def)
qed

text \<open>C19: The line printed for a type with recorded measurements shows its counters, and of its sample
  (a part of the measured times, all of them while they fit) the size, the mean, the smallest and
  the largest element and six quantiles that are elements of the sample, in increasing order.\<close>

theorem displayed_line:
  assumes "ss_repr mx evs s" and "op_ord ty < MAX_OPTYPES" and "0 < mx"
    and "times_of evs (op_ord ty) \<noteq> []"
  shows "\<exists>s' smp. let i = op_ord ty; rep = report_of smp in
    displayStats fmt True s ty 0 (min (maxsamples s) (opsSinceReset s ! i)) t0 t1 out
      = Inr (s', out @ report_line fmt s ty (length (times_of evs i)) (errors_of evs i)
                  (length (times_of evs i)) (t1 - t0) (t1 sdiv 1000) (length smp) rep) \<and>
    ss_repr mx evs s' \<and>
    length smp = min (nat mx) (length (times_of evs i)) \<and> mset smp \<subseteq># mset (times_of evs i) \<and>
    rep_mean rep = sum_list (map of_int smp) / length smp \<and>
    rep_min rep = Min (set smp) \<and> rep_max rep = Max (set smp) \<and>
    rep_min rep \<le> p25 rep \<and> p25 rep \<le> p50 rep \<and> p50 rep \<le> p75 rep \<and> p75 rep \<le> p90 rep \<and>
    p90 rep \<le> p95 rep \<and> p95 rep \<le> p99 rep \<and> p99 rep \<le> rep_max rep \<and>
    {p25 rep, p50 rep, p75 rep, p90 rep, p95 rep, p99 rep} \<subseteq> set smp"
proof -
  let ?i = "op_ord ty"
  let ?n = "used mx evs ?i"
  define smp where "smp = sort (take ?n (samples s ! ?i))"
  have dims: "ss_dims mx s" using assms(1) by (simp add: ss_repr_def)
  have n: "0 < ?n" "?n \<le> nat mx" using assms(3,4) by (simp_all add: used_def)
  have row: "length (samples s ! ?i) = nat mx" using dims assms(2) by (simp add: ss_dims_def)
  have len: "length smp = ?n" using row n by (simp add: smp_def)
  have ne: "smp \<noteq> []" using len n by (metis list.size(3) less_irrefl)
  have sorted: "sorted smp" by (simp add: smp_def)
  have span: "min (maxsamples s) (opsSinceReset s ! ?i) = int ?n"
    using shown_span assms(1-3) by simp
  have eq: "displayStats fmt True s ty 0 (int ?n) t0 t1 out
      = Inr (sorted_row s ?i ?n, out @ report_line fmt s ty (length (times_of evs ?i)) (errors_of evs ?i)
                  (length (times_of evs ?i)) (t1 - t0) (t1 sdiv 1000) (length smp) (report_of smp))"
    unfolding len using displayStats_eq [OF dims assms(2) n, of fmt t0 t1 out] assms(1,2)
    by (simp add: ss_repr_def smp_def)
  have sub: "mset smp \<subseteq># mset (times_of evs ?i)" using assms(1,2) by (simp add: ss_repr_def smp_def)
  have mn: "rep_mean (report_of smp) = sum_list (map of_int smp) / length smp"
    by (simp add: report_of_def Let_def)
  have mem: "{p25 (report_of smp), p50 (report_of smp), p75 (report_of smp), p90 (report_of smp),
      p95 (report_of smp), p99 (report_of smp)} \<subseteq> set smp"
    using report_members [OF ne] by blast
  note facts = eq sorted_row_repr [OF assms(1,2) refl] len [unfolded used_def] sub mn
    report_extremes [OF sorted ne] report_ordered [OF sorted ne] mem
  show ?thesis
    unfolding Let_def span
    by (rule exI [of _ "sorted_row s ?i ?n"], rule exI [of _ smp]) (insert facts, elim conjE, intro conjI; assumption)
qed

lemma displayed_line_witness:
  "\<exists>s line. add_all (SampledStats 0 2) sample_events = Inr s \<and>
     (\<exists>s'. displayStats (\<lambda>_. ''5'') True s InsertMetric 0 (min (maxsamples s) (opsSinceReset s ! 2)) 0 9 []
       = Inr (s', line)) \<and> ss_repr 2 sample_events s"
proof -
  from add_all_repr [OF sample_events_ok(1) _ sample_events_ok(2), of 2 0] obtain s
    where s: "add_all (SampledStats 0 2) sample_events = Inr s" "ss_repr 2 sample_events s" by auto
  have "op_ord InsertMetric < MAX_OPTYPES" "times_of sample_events (op_ord InsertMetric) \<noteq> []"
    by (simp_all add: MAX_OPTYPES_def times_of_def sample_events_def)
  from displayed_line [OF s(2) this(1) _ this(2), of "\<lambda>_. ''5''" 0 9 "[]"] s show ?thesis
    by (auto simp: Let_def)
qed

lemma commas_csv_stream_header: "commas csv_stream_header = 16"
  by (simp add: csv_stream_header_def)

lemma display_columns:
  assumes "displayStats fmt True s ty a b t0 t1 out = Inr (s', out')" and "\<And>x. commas (fmt x) = 0"
  shows "commas out' = commas out + 16"
  using assms commas_empty_line commas_report_line
  by (auto simp: displayStats_def Let_def rbind_eq_Inr split: if_splits)

lemma display_types:
  assumes "\<forall>ty \<in> set tys. op_ord ty < MAX_OPTYPES" and "ss_repr mx evs s" and "0 \<le> mx"
    and fmt: "\<And>x. commas (fmt x) = 0"
  shows "\<exists>s' out'. displayStats_types fmt True s t0 t1 tys out = Inr (s', out') \<and> ss_repr mx evs s' \<and>
    commas out' = commas out + 16 * length tys"
  using assms(1,2)
proof (induction tys arbitrary: s out)
  case (Cons ty tys)
  then have i: "op_ord ty < MAX_OPTYPES" by simp
  from display_one [OF Cons.prems(2) i assms(3), of fmt t0 t1 out] obtain s1 l
    where s1: "displayStats fmt True s ty 0 (min (maxsamples s) (opsSinceReset s ! op_ord ty)) t0 t1 out
                 = Inr (s1, out @ l)" "ss_repr mx evs s1" by blast
  from Cons.IH [OF _ s1(2), of "out @ l"] Cons.prems(1) obtain s' out'
    where r: "displayStats_types fmt True s1 t0 t1 tys (out @ l) = Inr (s', out')" "ss_repr mx evs s'"
      "commas out' = commas (out @ l) + 16 * length tys" by auto
  have "arr_get (opsSinceReset s) (int (op_ord ty)) = Inr (opsSinceReset s ! op_ord ty)"
    using Cons.prems(2) i by (simp add: ss_repr_def ss_dims_def arr_get_ok)
  then have "displayStats_types fmt True s t0 t1 (ty # tys) out = Inr (s', out')"
    using s1(1) r(1) by (simp add: displayStats_types_def)
  moreover have "commas out' = commas out + 16 * length (ty # tys)"
    using r(3) display_columns [OF s1(1) fmt] by simp
  ultimately show ?case using r(2) by blast
qed (simp add: displayStats_types_def)

text \<open>Displaying all types never fails on an object with recorded history, and changes nothing but
  the order of the samples; the printed lines have as many separators as the header of the stream.\<close>

theorem display_all_rectangular:
  assumes "list_all sample_ok evs" and "0 \<le> mx" and "length evs \<le> 2147483647"
    and "\<And>x. commas (fmt x) = 0"
  shows "\<exists>s s' out. add_all (SampledStats tid mx) evs = Inr s \<and>
    displayStatsAll fmt True s t0 t1 [] = Inr (s', out) \<and> ss_repr mx evs s' \<and>
    commas out = MAX_OPTYPES * commas csv_stream_header"
proof -
  from add_all_repr [OF assms(1-3)] obtain s
    where s: "add_all (SampledStats tid mx) evs = Inr s" "ss_repr mx evs s" by blast
  let ?tys = "map (\<lambda>i. the (op_of i)) [0..<MAX_OPTYPES]"
  have "\<forall>ty \<in> set ?tys. op_ord ty < MAX_OPTYPES" by (simp add: MAX_OPTYPES_def)
  from display_types [OF this s(2) assms(2,4), where ?t0.0 = t0 and ?t1.0 = t1 and out = "[]"] s(1) show ?thesis
    by (fastforce simp: displayStatsAll_def commas_csv_stream_header simp del: op_of.simps)
qed

lemma display_all_rectangular_witness:
  "\<exists>s s' out. add_all (SampledStats 1 2) sample_events = Inr s \<and>
     displayStatsAll (\<lambda>_. ''5'') True s 0 1000 [] = Inr (s', out) \<and> commas out = 64"
  using display_all_rectangular [OF sample_events_ok(1) _ sample_events_ok(2), of 2 "\<lambda>_. ''5''" 1 0 1000]
  by (auto simp: commas_csv_stream_header MAX_OPTYPES_def)

text \<open>The replacement decision uses the number of earlier measurements, not including the new one:
  once a row of \<open>mx\<close> slots is full, the value number \<open>k + 1\<close> is stored exactly when the draw is
  below \<open>mx / k\<close>. So the first value after the row is full always replaces a sample, whatever is
  drawn, although the comment promises every measurement the same probability.\<close>

theorem replacement_rule:
  assumes "0 < mx" and "mx \<le> k"
  shows "(sample_slot mx k u r \<noteq> None \<longleftrightarrow> u < of_int mx / of_int k) \<and>
    (k = mx \<and> u < 1 \<longrightarrow> sample_slot mx k u r = Some (r smod mx))"
  using assms by (simp add: sample_slot_def Let_def)

lemma replacement_rule_witness: "sample_slot 3 3 (9 / 10) 5 = Some 2 \<and> sample_slot 3 4 (9 / 10) 5 = None"
proof -
  have "sample_slot 3 3 (9 / 10) 5 = Some (5 smod 3)" using replacement_rule [of 3 3 "9 / 10" 5] by simp
  moreover have "sample_slot 3 4 (9 / 10) 5 = None" using replacement_rule [of 3 4 "9 / 10" 5] by simp
  ultimately show ?thesis by (simp add: signed_modulo_int_def)
qed
end
