(* ===== verification/SampledShape.thy ===== *)
theory SampledShape
  imports SampledFacts
begin

text \<open>
  The shape of a \<open>SampledStats\<close> object, which every operation keeps, and the seeding in its constructor.
\<close>

section \<open>The shape of the object\<close>











section \<open>The seed\<close>

text \<open>However many objects are constructed, the sampling uses the default seed, whatever was configured.\<close>

lemma seeding_has_no_effect:
  "gen_seed (foldl (\<lambda>gl rd. fst (seed_sampling cfg rd gl)) sampling_start rds) = 5489 \<and>
   srand_init (foldl (\<lambda>gl rd. fst (seed_sampling cfg rd gl)) sampling_start rds) = (if rds = [] then 0 else 1)"
  by (induction rds rule: rev_induct) (auto simp: sampling_start_def seed_sampling_def Let_def)

end
