(* ===== verification/Stats.thy ===== *)
theory Stats
  imports TsQueue Config
begin

text \<open>
  \<open>Stats.hpp\<close> and \<open>Stats.cpp\<close>: the thread that receives the messages of \<open>statQueue\<close> and counts them by
  type, and the reporter thread that prints an interval and clears the counts. Both hold
  \<open>lockCounts\<close> while they touch the two maps, so a step of either is atomic. The elapsed seconds
  and the queue size that a report prints are arguments.
\<close>

section \<open>The maps\<close>

record stats =
  Counts :: "message_type \<rightharpoonup> u64"
  execTimes :: "message_type \<rightharpoonup> u64 list"

definition Stats :: stats where
  "Stats = \<lparr>Counts = Map.empty, execTimes = Map.empty\<rparr>"

text \<open>
  \<open>operator[]\<close> of \<open>std::unordered_map\<close>: a key that is missing gets a value-initialised element. The
  readers below do not record that insertion, because the maps are cleared before the lock is
  released.
\<close>

definition count_at :: "stats \<Rightarrow> message_type \<Rightarrow> u64" where
  "count_at s k = (case Counts s k of None \<Rightarrow> 0 | Some c \<Rightarrow> c)"

definition times_at :: "stats \<Rightarrow> message_type \<Rightarrow> u64 list" where
  "times_at s k = (case execTimes s k of None \<Rightarrow> [] | Some v \<Rightarrow> v)"

text \<open>The body of the loop in \<open>Stats::Run\<close>, after \<open>wait_and_pop\<close>.\<close>

definition stats_receive :: "stats \<Rightarrow> stat_message \<Rightarrow> stats" where
  "stats_receive s sm =
     s\<lparr>Counts := (Counts s)(sm_op sm \<mapsto> count_at s (sm_op sm) + ucast (sm_cnt sm)),
       execTimes := (execTimes s)(sm_op sm \<mapsto> times_at s (sm_op sm) @ [ucast (time_us sm)])\<rparr>"

section \<open>The report\<close>

text \<open>
  \<open>percentile\<close>: the iterator arithmetic converts the double to an integer; \<open>std::nth_element\<close> puts
  the element of the sorted order there.
\<close>

definition percentile :: "u64 list \<Rightarrow> real \<Rightarrow> u64 res" where
  "percentile v percent = arr_get (sort v) (trunc (percent * real (length v) / 100))"

text \<open>Dereferencing \<open>std::max_element\<close> of an empty range reads past the end.\<close>

definition max_element :: "u64 list \<Rightarrow> u64 res" where
  "max_element v = (case v of [] \<Rightarrow> Inl OutOfBounds | x # xs \<Rightarrow> Inr (foldl max x xs))"

definition micros :: string where
  "micros = '' time('' @ [CHR 0xCE, CHR 0xBC] @ ''s): ''"

text \<open>The line for \<open>InsertMetric\<close> is always printed; a type without counts leaves both values 0.\<close>

definition insert_line :: "int \<Rightarrow> u64 \<Rightarrow> u64 \<Rightarrow> u32 \<Rightarrow> u32 \<Rightarrow> u32 \<Rightarrow> string" where
  "insert_line secFromStart cnts totalInserted biggest pct99 qsize =
     ''[Stats] Time: '' @ show_int secFromStart @ ''[s], '' @ label_of InsertMetric @ '' interval:'' @
     show_word cnts @ '', cum: '' @ show_word totalInserted @ '', max'' @ micros @ show_word biggest @
     '', 99%'' @ micros @ show_word pct99 @ '', qsize: '' @ show_word qsize @ [CHR 0x0A]"

definition type_line :: "int \<Rightarrow> message_type \<Rightarrow> u64 \<Rightarrow> u32 \<Rightarrow> u32 \<Rightarrow> string" where
  "type_line secFromStart st cnts biggest pct99 =
     ''[Stats] Time: '' @ show_int secFromStart @ ''[s], '' @ label_of st @ '': '' @ show_word cnts @
     '', max'' @ micros @ show_word biggest @ '', 99%'' @ micros @ show_word pct99 @ [CHR 0x0A]"

definition type_report :: "stats \<Rightarrow> int \<Rightarrow> message_type \<Rightarrow> string \<Rightarrow> string res" where
  "type_report s secFromStart st out =
     (if count_at s st > 0
      then rbind (max_element (times_at s st)) (\<lambda>biggest.
           rbind (percentile (times_at s st) (99 / 100)) (\<lambda>pct99.
           Inr (out @ type_line secFromStart st (count_at s st) (ucast biggest) (ucast pct99))))
      else Inr out)"

text \<open>One round of the loop in \<open>statsPrint\<close>: the maps, \<open>totalInserted\<close>, and what is printed.\<close>

definition statsPrint :: "stats \<Rightarrow> u64 \<Rightarrow> int \<Rightarrow> u32 \<Rightarrow> (stats \<times> u64 \<times> string) res" where
  "statsPrint s totalInserted secFromStart qsize =
     (let cnts = count_at s InsertMetric in
      rbind (if cnts > 0
             then rbind (percentile (times_at s InsertMetric) (99 / 100)) (\<lambda>pct99.
                  rbind (max_element (times_at s InsertMetric)) (\<lambda>biggest.
                  Inr (ucast biggest, ucast pct99)))
             else Inr (0, 0)) (\<lambda>(biggest, pct99).
      (let total = totalInserted + cnts;
           out = insert_line secFromStart cnts total biggest pct99 qsize in
      rbind (type_report s secFromStart DeleteDevice out) (\<lambda>out.
      rbind (rfold (type_report s secFromStart) [Select_K1, Select_K2, Select_K3] out) (\<lambda>out.
      Inr (s\<lparr>Counts := Map.empty, execTimes := Map.empty\<rparr>, total, out))))))"

end
