(* ===== verification/StatsFacts.thy ===== *)
theory StatsFacts
  imports Stats
begin

text \<open>
  The statistics thread over any interleaving of received messages and reports: what the two maps
  hold, that a report never reads past the end of an empty vector, and what it prints. The last
  part is about the rank that \<open>percentile\<close> takes.
\<close>

section \<open>What the maps hold\<close>

definition of_op :: "message_type \<Rightarrow> stat_message list \<Rightarrow> stat_message list" where
  "of_op k sms = filter (\<lambda>sm. sm_op sm = k) sms"

definition cnt_sum :: "message_type \<Rightarrow> stat_message list \<Rightarrow> u64" where
  "cnt_sum k sms = sum_list (map (\<lambda>sm. ucast (sm_cnt sm)) (of_op k sms))"

lemma cnt_sum_of_op: "cnt_sum k (of_op k sms) = cnt_sum k sms"
  by (simp add: cnt_sum_def of_op_def)

definition stats_repr :: "stat_message list \<Rightarrow> stats \<Rightarrow> bool" where
  "stats_repr sms s \<longleftrightarrow>
     (\<forall>k. count_at s k = cnt_sum k sms \<and> times_at s k = map (\<lambda>sm. ucast (time_us sm)) (of_op k sms))"

lemma stats_repr_init: "stats_repr [] Stats"
  by (simp add: stats_repr_def Stats_def count_at_def times_at_def cnt_sum_def of_op_def)

lemma cleared_repr: "stats_repr [] (s\<lparr>Counts := Map.empty, execTimes := Map.empty\<rparr>)"
  by (simp add: stats_repr_def count_at_def times_at_def cnt_sum_def of_op_def)

lemma stats_receive_repr: "stats_repr sms s \<Longrightarrow> stats_repr (sms @ [sm]) (stats_receive s sm)"
  by (auto simp: stats_repr_def stats_receive_def cnt_sum_def of_op_def count_at_def times_at_def)

text \<open>A type with a positive count has at least one execution time.\<close>

lemma counted_nonempty:
  assumes "stats_repr sms s" and "count_at s k > 0"
  shows "times_at s k \<noteq> []"
proof
  assume "times_at s k = []"
  with assms(1) have "of_op k sms = []" by (simp add: stats_repr_def)
  with assms show False by (simp add: stats_repr_def cnt_sum_def)
qed

section \<open>The order statistics\<close>

lemma max_element_eq: "v \<noteq> [] \<Longrightarrow> max_element v = Inr (Max (set v))"
  by (cases v) (simp_all add: max_element_def foldl_max)

text \<open>The rank that 0.99 stands for: 0.99 percent of the number of values.\<close>

lemma percentile_rank: "trunc (99 / 100 * real n / 100) = int (99 * n div 10000)"
proof -
  have "99 / 100 * real n / 100 = real_of_int (99 * int n) / real_of_int 10000" by simp
  then have "trunc (99 / 100 * real n / 100) = 99 * int n div 10000"
    by (simp only: trunc_nonneg floor_divide_of_int_eq)
  then show ?thesis by (simp add: zdiv_int)
qed

lemma rank_less: "v \<noteq> [] \<Longrightarrow> 99 * length v div 10000 < length v"
proof -
  assume "v \<noteq> []"
  then have "0 < length v" by blast
  then show ?thesis by linarith
qed

lemma percentile_eq:
  assumes "v \<noteq> []"
  shows "percentile v (99 / 100) = Inr (sort v ! (99 * length v div 10000))"
proof -
  have "99 * length v div 10000 < length (sort v)" using rank_less [OF assms] by simp
  then show ?thesis unfolding percentile_def percentile_rank by (rule arr_get_ok)
qed

section \<open>Reports\<close>

lemma type_report_eq:
  assumes "stats_repr sms s"
  shows "type_report s sec k out = Inr (if count_at s k > 0
    then out @ type_line sec k (count_at s k) (ucast (Max (set (times_at s k))))
                 (ucast (sort (times_at s k) ! (99 * length (times_at s k) div 10000)))
    else out)"
  using counted_nonempty [OF assms, of k]
  by (simp add: type_report_def max_element_eq percentile_eq)

lemma rfold_type_reports: "stats_repr sms s \<Longrightarrow> \<exists>out'. rfold (type_report s sec) ks out = Inr out'"
  by (induction ks arbitrary: out) (simp_all add: type_report_eq)

lemma statsPrint_total:
  assumes "stats_repr sms s"
  shows "\<exists>out. statsPrint s tot sec q
    = Inr (s\<lparr>Counts := Map.empty, execTimes := Map.empty\<rparr>, tot + count_at s InsertMetric, out)"
proof -
  have "\<exists>b p. (if count_at s InsertMetric > 0
             then rbind (percentile (times_at s InsertMetric) (99 / 100)) (\<lambda>pct99.
                  rbind (max_element (times_at s InsertMetric)) (\<lambda>biggest. Inr (ucast biggest, ucast pct99)))
             else Inr (0, 0)) = (Inr (b, p) :: (u32 \<times> u32) res)"
    using counted_nonempty [OF assms] by (simp add: max_element_eq percentile_eq)
  then obtain b p where bp: "(if count_at s InsertMetric > 0
             then rbind (percentile (times_at s InsertMetric) (99 / 100)) (\<lambda>pct99.
                  rbind (max_element (times_at s InsertMetric)) (\<lambda>biggest. Inr (ucast biggest, ucast pct99)))
             else Inr (0, 0)) = (Inr (b, p) :: (u32 \<times> u32) res)" by blast
  obtain out1 where out1: "type_report s sec DeleteDevice (insert_line sec (count_at s InsertMetric)
      (tot + count_at s InsertMetric) b p q) = Inr out1"
    using type_report_eq [OF assms] by blast
  obtain out2 where "rfold (type_report s sec) [Select_K1, Select_K2, Select_K3] out1 = Inr out2"
    using rfold_type_reports [OF assms] by blast
  with bp out1 show ?thesis unfolding statsPrint_def Let_def by simp
qed

section \<open>Any interleaving\<close>

datatype stats_event = Received stat_message | Report int u32

definition stats_event_step ::
  "stats_event \<Rightarrow> stats \<times> u64 \<times> string list \<Rightarrow> (stats \<times> u64 \<times> string list) res" where
  "stats_event_step ev st =
     (let (s, tot, outs) = st in
      case ev of
        Received sm \<Rightarrow> Inr (stats_receive s sm, tot, outs)
      | Report sec q \<Rightarrow>
          rbind (statsPrint s tot sec q) (\<lambda>(s', tot', out). Inr (s', tot', outs @ [out])))"

definition stats_run :: "stats_event list \<Rightarrow> (stats \<times> u64 \<times> string list) res" where
  "stats_run evs = rfold stats_event_step evs (Stats, 0, [])"

fun received :: "stats_event list \<Rightarrow> stat_message list" where
  "received [] = []"
| "received (Received sm # evs) = sm # received evs"
| "received (Report sec q # evs) = received evs"

fun reports :: "stats_event list \<Rightarrow> nat" where
  "reports [] = 0"
| "reports (Received sm # evs) = reports evs"
| "reports (Report sec q # evs) = Suc (reports evs)"

lemma received_snoc: "received (evs @ [ev]) = received evs @ received [ev]"
  by (induction evs rule: received.induct) (cases ev; simp)+

lemma reports_snoc: "reports (evs @ [ev]) = reports evs + reports [ev]"
  by (induction evs rule: reports.induct) simp_all

lemma cnt_sum_append: "cnt_sum k (xs @ ys) = cnt_sum k xs + cnt_sum k ys"
  by (simp add: cnt_sum_def of_op_def)

lemma stats_run_repr:
  "\<exists>s tot outs sms. stats_run evs = Inr (s, tot, outs) \<and> stats_repr sms s \<and>
     tot + cnt_sum InsertMetric sms = cnt_sum InsertMetric (received evs) \<and> length outs = reports evs"
proof (induction evs rule: rev_induct)
  case Nil
  show ?case by (simp add: stats_run_def stats_repr_init cnt_sum_def of_op_def exI [of _ "[]"])
next
  case (snoc ev evs)
  then obtain s tot outs sms where IH: "stats_run evs = Inr (s, tot, outs)" "stats_repr sms s"
    "tot + cnt_sum InsertMetric sms = cnt_sum InsertMetric (received evs)" "length outs = reports evs"
    by blast
  show ?case
  proof (cases ev)
    case (Received sm)
    with IH stats_receive_repr [OF IH(2), of sm] show ?thesis
      by (intro exI [of _ "stats_receive s sm"] exI [of _ tot] exI [of _ outs] exI [of _ "sms @ [sm]"])
        (simp add: stats_run_def rfold_append stats_event_step_def received_snoc reports_snoc
          cnt_sum_append add.assoc [symmetric])
  next
    case (Report sec q)
    obtain out where p: "statsPrint s tot sec q
        = Inr (s\<lparr>Counts := Map.empty, execTimes := Map.empty\<rparr>, tot + count_at s InsertMetric, out)"
      using statsPrint_total [OF IH(2)] by blast
    have "count_at s InsertMetric = cnt_sum InsertMetric sms" using IH(2) by (simp add: stats_repr_def)
    with p IH Report cleared_repr [of s] show ?thesis
      by (intro exI [of _ "s\<lparr>Counts := Map.empty, execTimes := Map.empty\<rparr>"]
          exI [of _ "tot + count_at s InsertMetric"] exI [of _ "outs @ [out]"] exI [of _ "[]"])
        (simp add: stats_run_def rfold_append stats_event_step_def received_snoc reports_snoc
          cnt_sum_def of_op_def)
  qed
qed

lemma stats_run_report:
  "\<exists>s tot outs. stats_run (evs @ [Report sec q]) = Inr (s, tot, outs) \<and>
     tot = cnt_sum InsertMetric (received evs) \<and> length outs = Suc (reports evs) \<and>
     (\<forall>k. count_at s k = 0 \<and> times_at s k = [])"
proof -
  obtain s tot outs sms where h: "stats_run evs = Inr (s, tot, outs)" "stats_repr sms s"
    "tot + cnt_sum InsertMetric sms = cnt_sum InsertMetric (received evs)" "length outs = reports evs"
    using stats_run_repr [of evs] by blast
  obtain out where p: "statsPrint s tot sec q
      = Inr (s\<lparr>Counts := Map.empty, execTimes := Map.empty\<rparr>, tot + count_at s InsertMetric, out)"
    using statsPrint_total [OF h(2)] by blast
  have "count_at s InsertMetric = cnt_sum InsertMetric sms" using h(2) by (simp add: stats_repr_def)
  with p h show ?thesis
    by (simp add: stats_run_def rfold_append stats_event_step_def count_at_def times_at_def)
qed

section \<open>Properties\<close>

text \<open>Whatever messages arrive between reports, and however often reports are printed, a report never
  dereferences the end of an empty vector, and no count is lost or counted twice: after a report the
  cumulative total is the sum of the counts of all insert messages received so far (in 64 bits).\<close>

theorem stats_total_exact:
  "\<exists>s tot outs. stats_run (evs @ [Report sec q]) = Inr (s, tot, outs) \<and>
     tot = cnt_sum InsertMetric (received evs) \<and> length outs = Suc (reports evs) \<and>
     (\<forall>k. count_at s k = 0 \<and> times_at s k = [])"
  by (rule stats_run_report)

text \<open>The value printed as "99% time" is not a 99th percentile: \<open>percentile\<close> divides its argument by
  100 and is called with 0.99, so at most one percent of the execution times are smaller than the
  value, and up to 101 of them it is their minimum.\<close>

theorem percentile_99_is_first:
  assumes "v \<noteq> []"
  shows "\<exists>x. percentile v (99 / 100) = Inr x \<and> x \<in> set v \<and>
    100 * length (filter (\<lambda>y. y < x) v) \<le> length v \<and> (length v \<le> 101 \<longrightarrow> x = Min (set v))"
proof -
  let ?k = "99 * length v div 10000"
  have k: "?k < length (sort v)" using rank_less [OF assms] by simp
  have "length (filter (\<lambda>y. y < sort v ! ?k) (sort v)) \<le> ?k"
    using sorted_count_less [OF sorted_sort k] .
  then have "100 * length (filter (\<lambda>y. y < sort v ! ?k) v) \<le> length v"
    by (simp add: filter_sort)
  moreover have "sort v ! ?k \<in> set v" using nth_mem [OF k] by simp
  moreover have "sort v ! ?k = Min (set v)" if "length v \<le> 101"
  proof -
    from that have "?k = 0" by simp
    moreover have "sort v ! 0 = Min (set (sort v))"
      using assms by (intro sorted_nth_0 sorted_sort) (metis set_empty set_sort)
    ultimately show ?thesis by simp
  qed
  ultimately show ?thesis using percentile_eq [OF assms] by blast
qed

lemma percentile_99_is_first_witness: "percentile [30, 10, 20] (99 / 100) = Inr 10"
proof -
  obtain x where "percentile [30, 10, 20] (99 / 100) = Inr x" "x = Min (set [30, 10, 20])"
    using percentile_99_is_first [of "[30, 10, 20]"] by auto
  then show ?thesis by (simp add: min_def)
qed

end
