(* ===== verification/StatsRun.thy ===== *)
theory StatsRun
  imports StatsFacts TsQueue Fairness
begin

text \<open>
  The statistics thread in operation: the threads that push into \<open>statQueue\<close>, the loop of \<open>Stats::Run\<close>
  that pops and counts, and the reporter that it started, as threads of one system. The steps are the
  queue operations and the two sections under \<open>lockCounts\<close>.
\<close>

section \<open>The system\<close>

text \<open>The receiver is in \<open>wait_and_pop\<close>, or has a message to count. \<open>cum\<close> is \<open>totalInserted\<close>.\<close>

datatype receiver_pc = RxPop | RxCount stat_message

record stats_system =
  to_send :: "stat_message list"
  statq :: "stat_message tsqueue"
  receiver :: receiver_pc
  counted :: stats
  cum :: u64
  printed :: "string list"
  failed :: "mb_error option"

definition stats_start :: "stat_message list \<Rightarrow> stats_system" where
  "stats_start sms =
     \<lparr>to_send = sms, statq = tsqueue_new, receiver = RxPop, counted = Stats, cum = 0, printed = [], failed = None\<rparr>"

datatype stats_thread = Sender | Receiver | Reporter

text \<open>\<open>clock n\<close> are the seconds since the start at report \<open>n\<close>.\<close>

definition receiver_step :: "stats_system \<Rightarrow> stats_system option" where
  "receiver_step s =
     (case receiver s of
        RxPop \<Rightarrow> (case wait_and_pop (statq s) of
                    None \<Rightarrow> None
                  | Some (sm, q) \<Rightarrow> Some (s\<lparr>statq := q, receiver := RxCount sm\<rparr>))
      | RxCount sm \<Rightarrow> Some (s\<lparr>receiver := RxPop, counted := stats_receive (counted s) sm\<rparr>))"

definition reporter_step :: "(nat \<Rightarrow> int) \<Rightarrow> stats_system \<Rightarrow> stats_system" where
  "reporter_step clock s =
     (case statsPrint (counted s) (cum s) (clock (length (printed s))) (tsqueue_size (statq s)) of
        Inl e \<Rightarrow> s\<lparr>failed := Some e\<rparr>
      | Inr (st, tot, out) \<Rightarrow> s\<lparr>counted := st, cum := tot, printed := printed s @ [out]\<rparr>)"

definition stats_step :: "(nat \<Rightarrow> int) \<Rightarrow> stats_thread \<Rightarrow> stats_system \<Rightarrow> stats_system option" where
  "stats_step clock a s =
     (if failed s \<noteq> None then None
      else case a of
        Sender \<Rightarrow> (case to_send s of
                     [] \<Rightarrow> None
                   | sm # sms \<Rightarrow> Some (s\<lparr>to_send := sms, statq := push (statq s) sm\<rparr>))
      | Receiver \<Rightarrow> receiver_step s
      | Reporter \<Rightarrow> Some (reporter_step clock s))"

section \<open>The invariant\<close>

fun in_receiver :: "receiver_pc \<Rightarrow> stat_message list" where
  "in_receiver RxPop = []"
| "in_receiver (RxCount sm) = [sm]"

text \<open>\<open>open_interval\<close>: what was counted since the last report.\<close>

definition stats_inv :: "stat_message list \<Rightarrow> stats_system \<Rightarrow> bool" where
  "stats_inv sms s \<longleftrightarrow> failed s = None \<and>
     (\<exists>reported open_interval. stats_repr open_interval (counted s) \<and>
        cum s = cnt_sum InsertMetric reported \<and>
        reported @ open_interval @ in_receiver (receiver s) @ data_queue (statq s) @ to_send s = sms)"

lemma stats_invI:
  assumes "failed s = None" and "stats_repr open_interval (counted s)" and "cum s = cnt_sum InsertMetric reported"
    and "reported @ open_interval @ in_receiver (receiver s) @ data_queue (statq s) @ to_send s = sms"
  shows "stats_inv sms s"
  using assms by (auto simp: stats_inv_def)

lemma stats_inv_start: "stats_inv sms (stats_start sms)"
  by (rule stats_invI [of _ "[]" "[]"])
    (simp_all add: stats_start_def stats_repr_init tsqueue_new_def cnt_sum_def of_op_def)

lemma reporter_step_eq:
  assumes "stats_repr open_interval (counted s)"
  shows "\<exists>out. reporter_step clock s = s\<lparr>counted := (counted s)\<lparr>Counts := Map.empty, execTimes := Map.empty\<rparr>,
    cum := cum s + cnt_sum InsertMetric open_interval, printed := printed s @ [out]\<rparr>"
proof -
  have "count_at (counted s) InsertMetric = cnt_sum InsertMetric open_interval"
    using assms by (simp add: stats_repr_def)
  with statsPrint_total [OF assms, of "cum s" "clock (length (printed s))" "tsqueue_size (statq s)"]
  show ?thesis by (auto simp: reporter_step_def)
qed

lemma receiver_cases:
  assumes "receiver_step s = Some s'"
  obtains sm q where "receiver s = RxPop" "data_queue (statq s) = sm # data_queue q"
      "s' = s\<lparr>statq := q, receiver := RxCount sm\<rparr>"
  | sm where "receiver s = RxCount sm" "s' = s\<lparr>receiver := RxPop, counted := stats_receive (counted s) sm\<rparr>"
proof (cases "receiver s")
  case RxPop
  with assms obtain sm q where "wait_and_pop (statq s) = Some (sm, q)" "s' = s\<lparr>statq := q, receiver := RxCount sm\<rparr>"
    by (auto simp: receiver_step_def split: option.splits)
  with RxPop tsq.deq_Some [of "statq s" sm q] show thesis using that(1) by blast
next
  case (RxCount sm)
  with assms show thesis using that(2) by (simp add: receiver_step_def)
qed

lemma stats_inv_step:
  assumes step: "stats_step clock a s = Some s'" and inv: "stats_inv sms s"
  shows "stats_inv sms s'"
proof -
  from inv obtain reported open_interval where
    h: "failed s = None" "stats_repr open_interval (counted s)" "cum s = cnt_sum InsertMetric reported"
    "reported @ open_interval @ in_receiver (receiver s) @ data_queue (statq s) @ to_send s = sms"
    by (auto simp: stats_inv_def)
  show ?thesis
  proof (cases a)
    case Sender
    with step h(1) obtain sm ms where "to_send s = sm # ms" "s' = s\<lparr>to_send := ms, statq := push (statq s) sm\<rparr>"
      by (auto simp: stats_step_def split: list.splits)
    with h show ?thesis by (intro stats_invI [of _ open_interval reported]) (simp_all add: push_def)
  next
    case Receiver
    with step h(1) have "receiver_step s = Some s'" by (simp add: stats_step_def)
    then show ?thesis
    proof (cases rule: receiver_cases)
      case (1 sm q)
      with h show ?thesis by (intro stats_invI [of _ open_interval reported]) simp_all
    next
      case (2 sm)
      with h stats_receive_repr [OF h(2), of sm] show ?thesis
        by (intro stats_invI [of _ "open_interval @ [sm]" reported]) simp_all
    qed
  next
    case Reporter
    with step h(1) have "s' = reporter_step clock s" by (simp add: stats_step_def)
    with reporter_step_eq [OF h(2), of clock] obtain out where
      s': "s' = s\<lparr>counted := (counted s)\<lparr>Counts := Map.empty, execTimes := Map.empty\<rparr>,
        cum := cum s + cnt_sum InsertMetric open_interval, printed := printed s @ [out]\<rparr>" by blast
    with cleared_repr [of "counted s"] h show ?thesis
      by (intro stats_invI [of _ "[]" "reported @ open_interval"]) (simp_all add: cnt_sum_append)
  qed
qed

section \<open>Everything gets counted\<close>

definition receive_work :: "stats_system \<Rightarrow> nat" where
  "receive_work s = 3 * length (to_send s) + 2 * length (data_queue (statq s)) + length (in_receiver (receiver s))"

definition can_pass_on :: "stats_thread \<Rightarrow> stats_system \<Rightarrow> bool" where
  "can_pass_on a s \<longleftrightarrow>
     a = Sender \<and> to_send s \<noteq> [] \<or>
     a = Receiver \<and> (data_queue (statq s) \<noteq> [] \<or> receiver s \<noteq> RxPop)"

lemma receive_step:
  assumes "stats_step clock a s = Some s'"
  shows "receive_work s' < receive_work s \<or>
    a = Reporter \<and> to_send s' = to_send s \<and> statq s' = statq s \<and> receiver s' = receiver s"
proof (cases a)
  case Sender
  with assms show ?thesis by (auto simp: stats_step_def receive_work_def push_def split: list.splits if_splits)
next
  case Receiver
  with assms have "receiver_step s = Some s'" by (simp add: stats_step_def split: if_splits)
  then show ?thesis by (cases rule: receiver_cases) (auto simp: receive_work_def)
next
  case Reporter
  with assms show ?thesis
    by (auto simp: stats_step_def reporter_step_def split: if_splits sum.splits)
qed

lemma can_pass_on_moves: "failed s = None \<Longrightarrow> can_pass_on a s \<Longrightarrow> stats_step clock a s \<noteq> None"
  by (cases "receiver s")
    (auto simp: can_pass_on_def stats_step_def receiver_step_def wait_and_pop_def split: list.splits)

interpretation receiving: ranked_system "stats_step clock" UNIV "stats_inv sms" receive_work can_pass_on "\<lambda>a s. 0"
  for clock sms
proof
  fix a s s'
  assume step: "stats_step clock a s = Some s'" and inv: "stats_inv sms s"
  show "stats_inv sms s'" using stats_inv_step [OF step inv] .
  note cases = receive_step [OF step]
  show "receive_work s' = 0" if "receive_work s = 0"
    using cases that by (auto simp: receive_work_def)
  show "receive_work s' < receive_work s \<or>
      receive_work s' = receive_work s \<and> can_pass_on a s' \<and> (0::nat) < 0" if "can_pass_on a s"
    using cases that by (auto simp: can_pass_on_def)
  show "receive_work s' < receive_work s \<or>
      receive_work s' = receive_work s \<and> can_pass_on b s' \<and> (0::nat) \<le> 0" if "can_pass_on b s" for b
    using cases that by (auto simp: can_pass_on_def receive_work_def)
next
  fix s
  assume "stats_inv sms s" and "0 < receive_work s"
  then show "\<exists>a \<in> UNIV. can_pass_on a s"
    by (cases "receiver s") (auto simp: receive_work_def can_pass_on_def)
next
  fix a s
  assume "stats_inv sms s" and "can_pass_on a s"
  then show "stats_step clock a s \<noteq> None" using can_pass_on_moves by (simp add: stats_inv_def)
qed

section \<open>The next report prints the total\<close>

definition received_inv :: "stat_message list \<Rightarrow> stats_system \<Rightarrow> bool" where
  "received_inv sms s \<longleftrightarrow> stats_inv sms s \<and> receive_work s = 0"

definition report_left :: "stat_message list \<Rightarrow> stats_system \<Rightarrow> nat" where
  "report_left sms s = (if cum s = cnt_sum InsertMetric sms then 0 else 1)"

lemma report_step:
  assumes step: "stats_step clock a s = Some s'" and inv: "received_inv sms s"
  shows "a = Reporter \<and> cum s' = cnt_sum InsertMetric sms"
proof -
  have idle: "to_send s = []" "data_queue (statq s) = []" "in_receiver (receiver s) = []" and inv': "stats_inv sms s"
    using inv by (simp_all add: received_inv_def receive_work_def)
  have rx: "receiver s = RxPop" using idle(3) by (cases "receiver s") simp_all
  have a: "a = Reporter"
    using step idle rx by (cases a) (auto simp: stats_step_def receiver_step_def wait_and_pop_def split: if_splits)
  from inv' idle obtain reported open_interval where
    h: "failed s = None" "stats_repr open_interval (counted s)" "cum s = cnt_sum InsertMetric reported"
    "reported @ open_interval = sms" by (auto simp: stats_inv_def)
  from step a h(1) have "s' = reporter_step clock s" by (simp add: stats_step_def)
  with reporter_step_eq [OF h(2), of clock] a h(3,4) show ?thesis by (auto simp: cnt_sum_append)
qed

interpretation reporting: ranked_system "stats_step clock" UNIV "received_inv sms" "report_left sms"
    "\<lambda>a s. a = Reporter \<and> cum s \<noteq> cnt_sum InsertMetric sms" "\<lambda>a s. 0"
  for clock sms
proof
  fix a s s'
  assume step: "stats_step clock a s = Some s'" and inv: "received_inv sms s"
  show "received_inv sms s'"
    using inv receiving.inv_step [OF step, of sms] receiving.done_step [OF _ _ step, of sms]
    by (auto simp: received_inv_def)
  note cum = report_step [OF step inv]
  show "report_left sms s' = 0" using cum by (simp add: report_left_def)
  show "report_left sms s' < report_left sms s \<or> report_left sms s' = report_left sms s \<and>
      (a = Reporter \<and> cum s' \<noteq> cnt_sum InsertMetric sms) \<and> (0::nat) < 0"
    if "a = Reporter \<and> cum s \<noteq> cnt_sum InsertMetric sms"
    using cum that by (simp add: report_left_def)
  show "report_left sms s' < report_left sms s \<or> report_left sms s' = report_left sms s \<and>
      (b = Reporter \<and> cum s' \<noteq> cnt_sum InsertMetric sms) \<and> (0::nat) \<le> 0"
    if "b = Reporter \<and> cum s \<noteq> cnt_sum InsertMetric sms" for b
    using cum that by (simp add: report_left_def)
next
  fix s
  assume "received_inv sms s" and "0 < report_left sms s"
  then show "\<exists>a \<in> UNIV. a = Reporter \<and> cum s \<noteq> cnt_sum InsertMetric sms"
    by (simp add: report_left_def split: if_splits)
next
  fix a :: stats_thread and s
  assume "received_inv sms s" and "a = Reporter \<and> cum s \<noteq> cnt_sum InsertMetric sms"
  then show "stats_step clock a s \<noteq> None"
    by (simp add: received_inv_def stats_inv_def stats_step_def)
qed

section \<open>Properties\<close>

lemma stats_run_inv: "stats_inv sms (run (stats_step clock) sched (stats_start sms) k)"
  by (rule receiving.inv_run [where k = 0]) (simp_all add: stats_inv_start)

text \<open>What is accounted for at any moment.\<close>

lemma stats_inv_sum:
  assumes "stats_inv sms s"
  shows "cum s + count_at (counted s) InsertMetric +
    cnt_sum InsertMetric (in_receiver (receiver s) @ data_queue (statq s) @ to_send s) = cnt_sum InsertMetric sms"
proof -
  from assms obtain reported open_interval where
    h: "stats_repr open_interval (counted s)" "cum s = cnt_sum InsertMetric reported"
    "reported @ open_interval @ in_receiver (receiver s) @ data_queue (statq s) @ to_send s = sms"
    by (auto simp: stats_inv_def)
  have "count_at (counted s) InsertMetric = cnt_sum InsertMetric open_interval" using h(1) by (simp add: stats_repr_def)
  with h(2) show ?thesis unfolding h(3) [symmetric] cnt_sum_append by (simp only: add.assoc)
qed

text \<open>C24: The statistics thread against the threads that send to it, in every interleaving: no report fails,
  and at every moment the printed total, what was counted since, and what is still on its way add up
  to the inserts of all messages. Under a fair scheduler the printed total becomes, and stays, the
  number of all rows inserted; until then it is short of them by the rest of that sum.\<close>

theorem stats_thread_total:
  "(\<forall>sched k. let s = run (stats_step clock) sched (stats_start sms) k in failed s = None \<and>
     cum s + count_at (counted s) InsertMetric +
     cnt_sum InsertMetric (in_receiver (receiver s) @ data_queue (statq s) @ to_send s) = cnt_sum InsertMetric sms) \<and>
   (\<forall>sched. fair UNIV sched \<longrightarrow>
     (\<exists>k. \<forall>j\<ge>k. let s = run (stats_step clock) sched (stats_start sms) j in
        data_queue (statq s) = [] \<and> cum s = cnt_sum InsertMetric sms))"
proof (intro conjI allI impI)
  fix sched k
  let ?s = "run (stats_step clock) sched (stats_start sms) k"
  have inv: "stats_inv sms ?s" by (rule stats_run_inv)
  then show "let s = ?s in failed s = None \<and> cum s + count_at (counted s) InsertMetric +
      cnt_sum InsertMetric (in_receiver (receiver s) @ data_queue (statq s) @ to_send s) = cnt_sum InsertMetric sms"
    using stats_inv_sum [OF inv] by (simp add: Let_def stats_inv_def)
next
  fix sched :: "nat \<Rightarrow> stats_thread"
  assume fair: "fair UNIV sched"
  obtain i where "received_inv sms (run (stats_step clock) sched (stats_start sms) i)"
    using receiving.work_gets_done [OF fair stats_run_inv [of sms clock sched 0]] by (auto simp: received_inv_def)
  from reporting.work_gets_done [OF fair this] obtain k where
    k: "\<And>j. k \<le> j \<Longrightarrow> received_inv sms (run (stats_step clock) sched (stats_start sms) j) \<and>
      report_left sms (run (stats_step clock) sched (stats_start sms) j) = 0" by blast
  show "\<exists>k. \<forall>j\<ge>k. let s = run (stats_step clock) sched (stats_start sms) j in
      data_queue (statq s) = [] \<and> cum s = cnt_sum InsertMetric sms"
  proof (intro exI allI impI)
    fix j
    assume "k \<le> j"
    from k [OF this] show "let s = run (stats_step clock) sched (stats_start sms) j in
        data_queue (statq s) = [] \<and> cum s = cnt_sum InsertMetric sms"
      by (auto simp: Let_def received_inv_def receive_work_def report_left_def split: if_splits)
  qed
qed

text \<open>The three threads in turn.\<close>

definition in_turn :: "nat \<Rightarrow> stats_thread" where
  "in_turn k = (if k mod 3 = 0 then Sender else if k mod 3 = 1 then Receiver else Reporter)"

lemma in_turn_fair: "fair UNIV in_turn"
proof -
  have "\<exists>j\<ge>k. in_turn j = a" for k a
  proof (cases a)
    case Sender
    then show ?thesis by (intro exI [of _ "3 * k"]) (simp add: in_turn_def)
  next
    case Receiver
    then show ?thesis by (intro exI [of _ "3 * k + 1"]) (simp add: in_turn_def)
  next
    case Reporter
    moreover have "(3 * k + 2) mod 3 = 2" by presburger
    ultimately show ?thesis by (intro exI [of _ "3 * k + 2"]) (simp add: in_turn_def)
  qed
  then show ?thesis by (simp add: fair_def)
qed

lemma stats_thread_total_witness:
  "\<exists>k. cum (run (stats_step int) in_turn (stats_start [StatMessage InsertMetric 5 7]) k) = 7"
proof -
  have "cnt_sum InsertMetric [StatMessage InsertMetric 5 7] = 7" by (simp add: cnt_sum_def of_op_def)
  moreover obtain k where
    "\<forall>j\<ge>k. let s = run (stats_step int) in_turn (stats_start [StatMessage InsertMetric 5 7]) j in
       data_queue (statq s) = [] \<and> cum s = cnt_sum InsertMetric [StatMessage InsertMetric 5 7]"
    using stats_thread_total [of int "[StatMessage InsertMetric 5 7]", THEN conjunct2] in_turn_fair by blast
  ultimately show ?thesis by (auto simp: Let_def)
qed

end
