(* ===== verification/Loader.thy ===== *)
theory Loader
  imports Message TsQueue
begin

text \<open>
  The running system: the main thread, which pushes messages into \<open>tsQueue\<close> and waits for it to
  shrink (\<open>Preparer\<close>), sets \<open>Config::processingComplete\<close> and joins the loader threads (\<open>main\<close>), and
  the loader threads (\<open>InsertData\<close> of the three drivers). A step is one access to the shared state
  by one thread: a test of \<open>processingComplete\<close> or \<open>tsQueue.empty()\<close>, one queue operation, or the
  end of the query for one message. The queue operations are those of \<open>TsQueue\<close>; a blocked
  operation is a step that is not possible yet (\<open>TsMonitor\<close> shows that the condition variables
  lose no wake-up here).
\<close>

section \<open>What the main thread does with the queue\<close>

datatype action = Push message | WaitSize u32 | WaitEmpty

fun pushes :: "action list \<Rightarrow> message list" where
  "pushes [] = []"
| "pushes (Push m # acts) = m # pushes acts"
| "pushes (WaitSize n # acts) = pushes acts"
| "pushes (WaitEmpty # acts) = pushes acts"

lemma pushes_append [simp]: "pushes (xs @ ys) = pushes xs @ pushes ys"
  by (induction xs rule: pushes.induct) simp_all

section \<open>The system\<close>

text \<open>
  The control points of a loader. \<open>AtDone\<close>, \<open>AtLoopEmpty\<close>: the two tests of the \<open>while\<close> condition;
  \<open>AtIf\<close>: the test before the pop; \<open>AtPop\<close>: in \<open>wait_and_pop\<close>; \<open>Busy m\<close>: in the switch, with the
  popped message.
\<close>

datatype pc = AtDone | AtLoopEmpty | AtIf | AtPop | Busy message | Exited

record system =
  sq :: "message tsqueue"
  pcs :: "pc list"
  todo :: "action list"
  complete :: bool
  pushed :: "message list"
  popped :: "message list"
  handled :: "message list"

text \<open>
  \<open>head\<close> is where a loader begins its loop: \<open>AtDone\<close> for \<open>while(!Config::processingComplete ||
  !tsQueue.empty())\<close> in \<open>MySQLDriver\<close>, \<open>AtPop\<close> for \<open>while(true)\<close> in the other two.
\<close>

definition system_init :: "pc \<Rightarrow> nat \<Rightarrow> action list \<Rightarrow> system" where
  "system_init head n acts =
     \<lparr>sq = tsqueue_new, pcs = replicate n head, todo = acts, complete = False,
      pushed = [], popped = [], handled = []\<rparr>"

definition goto_pc :: "system \<Rightarrow> nat \<Rightarrow> pc \<Rightarrow> system" where
  "goto_pc s t p = s\<lparr>pcs := (pcs s)[t := p]\<rparr>"

text \<open>The step of loader \<open>t\<close>; \<^const>\<open>None\<close> when it is blocked or has left its loop.\<close>

definition loader_step :: "pc \<Rightarrow> nat \<Rightarrow> system \<Rightarrow> system option" where
  "loader_step head t s =
     (case pcs s ! t of
        AtDone \<Rightarrow> Some (goto_pc s t (if complete s then AtLoopEmpty else AtIf))
      | AtLoopEmpty \<Rightarrow> Some (goto_pc s t (if is_empty (sq s) then Exited else AtIf))
      | AtIf \<Rightarrow> Some (goto_pc s t (if is_empty (sq s) then AtDone else AtPop))
      | AtPop \<Rightarrow>
          (case wait_and_pop (sq s) of
             None \<Rightarrow> None
           | Some (m, q) \<Rightarrow> Some ((goto_pc s t (Busy m))\<lparr>sq := q, popped := popped s @ [m]\<rparr>))
      | Busy m \<Rightarrow> Some ((goto_pc s t head)\<lparr>handled := handled s @ [m]\<rparr>)
      | Exited \<Rightarrow> None)"

text \<open>The step of the main thread; after its last action it sets the flag and joins.\<close>

definition main_step :: "system \<Rightarrow> system option" where
  "main_step s =
     (case todo s of
        [] \<Rightarrow> (if complete s then None else Some (s\<lparr>complete := True\<rparr>))
      | Push m # acts \<Rightarrow> Some (s\<lparr>todo := acts, sq := push (sq s) m, pushed := pushed s @ [m]\<rparr>)
      | WaitSize n # acts \<Rightarrow> if wait_size_ready (sq s) n then Some (s\<lparr>todo := acts\<rparr>) else None
      | WaitEmpty # acts \<Rightarrow> if wait_empty_ready (sq s) then Some (s\<lparr>todo := acts\<rparr>) else None)"

inductive sys_step :: "pc \<Rightarrow> system \<Rightarrow> system \<Rightarrow> bool" for head where
  by_loader: "t < length (pcs s) \<Longrightarrow> loader_step head t s = Some s' \<Longrightarrow> sys_step head s s'"
| by_main: "main_step s = Some s' \<Longrightarrow> sys_step head s s'"

inductive_cases sys_stepE: "sys_step head s s'"

inductive sys_reach :: "pc \<Rightarrow> nat \<Rightarrow> action list \<Rightarrow> system \<Rightarrow> bool" for head n acts where
  sys_start: "sys_reach head n acts (system_init head n acts)"
| sys_next: "sys_reach head n acts s \<Longrightarrow> sys_step head s s' \<Longrightarrow> sys_reach head n acts s'"

text \<open>\<open>JoinThreads\<close> returns when every loader has left its loop.\<close>

definition all_exited :: "system \<Rightarrow> bool" where
  "all_exited s \<longleftrightarrow> list_all (\<lambda>p. p = Exited) (pcs s)"

section \<open>The cases of a step\<close>

lemma wait_and_pop_Some: "wait_and_pop q = Some (v, q') \<longleftrightarrow> data_queue q = v # data_queue q'"
  by (cases q; cases q') (auto simp: wait_and_pop_def split: list.splits)

text \<open>Every step is one of these updates.\<close>

lemma sys_step_cases [consumes 1, case_names done_test loop_test if_test pop handle finish do_push do_wait]:
  assumes "sys_step head s s'"
  obtains
    t where "t < length (pcs s)" "pcs s ! t = AtDone"
      "s' = goto_pc s t (if complete s then AtLoopEmpty else AtIf)"
  | t where "t < length (pcs s)" "pcs s ! t = AtLoopEmpty"
      "s' = goto_pc s t (if is_empty (sq s) then Exited else AtIf)"
  | t where "t < length (pcs s)" "pcs s ! t = AtIf"
      "s' = goto_pc s t (if is_empty (sq s) then AtDone else AtPop)"
  | t m q where "t < length (pcs s)" "pcs s ! t = AtPop" "data_queue (sq s) = m # data_queue q"
      "s' = (goto_pc s t (Busy m))\<lparr>sq := q, popped := popped s @ [m]\<rparr>"
  | t m where "t < length (pcs s)" "pcs s ! t = Busy m"
      "s' = (goto_pc s t head)\<lparr>handled := handled s @ [m]\<rparr>"
  | "todo s = []" "\<not> complete s" "s' = s\<lparr>complete := True\<rparr>"
  | m acts where "todo s = Push m # acts"
      "s' = s\<lparr>todo := acts, sq := push (sq s) m, pushed := pushed s @ [m]\<rparr>"
  | a acts where "todo s = a # acts" "a = WaitEmpty \<and> data_queue (sq s) = []
        \<or> (\<exists>n. a = WaitSize n \<and> length (data_queue (sq s)) \<le> unat n)"
      "s' = s\<lparr>todo := acts\<rparr>"
  using assms
proof (cases rule: sys_step.cases)
  case (by_loader t)
  then show thesis
    unfolding loader_step_def
    by (cases "pcs s ! t")
      (auto split: option.splits simp: wait_and_pop_Some intro: that(1-5))
next
  case by_main
  then show thesis
    unfolding main_step_def
    by (auto split: list.splits action.splits if_splits intro: that(6-8)
        simp: wait_size_ready_def wait_empty_ready_def)
qed

lemma goto_pc_sels [simp]:
  "sq (goto_pc s t p) = sq s" "todo (goto_pc s t p) = todo s" "complete (goto_pc s t p) = complete s"
  "pushed (goto_pc s t p) = pushed s" "popped (goto_pc s t p) = popped s" "handled (goto_pc s t p) = handled s"
  "pcs (goto_pc s t p) = (pcs s)[t := p]"
  by (simp_all add: goto_pc_def)

lemma data_queue_push [simp]: "data_queue (push q v) = data_queue q @ [v]"
  by (simp add: push_def)

end
