(* ===== verification/LoaderFacts.thy ===== *)
theory LoaderFacts
  imports Loader
begin

text \<open>
  The loader threads: no message is lost, duplicated or reordered in the queue; when the main
  thread has joined them everything pushed has been handled; how long the queue gets; when the
  system can still move, and the schedule in which it cannot.
\<close>

section \<open>Messages in the hands of loaders\<close>

fun hand :: "pc \<Rightarrow> message multiset" where
  "hand (Busy m) = {#m#}"
| "hand p = {#}"

definition hands :: "pc list \<Rightarrow> message multiset" where
  "hands ps = sum_list (map hand ps)"

lemma hands_update:
  assumes "t < length ps"
  shows "hands (ps[t := p]) + hand (ps ! t) = hands ps + hand p"
proof -
  have "hands (ps[t := p]) = hands (take t ps) + hand p + hands (drop (Suc t) ps)"
    using assms by (simp add: hands_def upd_conv_take_nth_drop add.assoc)
  moreover have "hands (take t ps @ ps ! t # drop (Suc t) ps) = hands (take t ps) + hand (ps ! t) + hands (drop (Suc t) ps)"
    by (simp add: hands_def add.assoc)
  moreover have "take t ps @ ps ! t # drop (Suc t) ps = ps" using assms by (rule id_take_nth_drop [symmetric])
  ultimately show ?thesis by (simp add: ac_simps)
qed

lemma hands_Nil [simp]: "hands [] = {#}"
  by (simp add: hands_def)

lemma hands_replicate: "hand p = {#} \<Longrightarrow> hands (replicate n p) = {#}"
  by (induction n) (simp_all add: hands_def)

lemma hands_idle: "(\<And>p. p \<in> set ps \<Longrightarrow> hand p = {#}) \<Longrightarrow> hands ps = {#}"
  by (induction ps) (simp_all add: hands_def)

section \<open>The invariant\<close>

definition head_ok :: "pc \<Rightarrow> bool" where
  "head_ok head \<longleftrightarrow> head = AtDone \<or> head = AtPop"

definition sys_inv :: "nat \<Rightarrow> action list \<Rightarrow> system \<Rightarrow> bool" where
  "sys_inv n acts s \<longleftrightarrow>
     length (pcs s) = n \<and>
     popped s @ data_queue (sq s) = pushed s \<and>
     pushed s @ pushes (todo s) = pushes acts \<and>
     mset (handled s) + hands (pcs s) = mset (popped s) \<and>
     (complete s \<longrightarrow> todo s = []) \<and>
     (AtLoopEmpty \<in> set (pcs s) \<longrightarrow> complete s) \<and>
     (Exited \<in> set (pcs s) \<longrightarrow> complete s \<and> data_queue (sq s) = [])"

lemma sys_inv_init: "head_ok head \<Longrightarrow> sys_inv n acts (system_init head n acts)"
  by (auto simp: sys_inv_def system_init_def tsqueue_new_def head_ok_def hands_replicate set_replicate_conv_if)

lemma mem_update: "p \<in> set (ps[t := q]) \<Longrightarrow> p = q \<or> p \<in> set ps"
  by (meson insertE set_update_subset_insert subsetD)

text \<open>A loader that neither takes nor finishes a message.\<close>

lemma sys_inv_goto:
  assumes inv: "sys_inv n acts s" and t: "t < length (pcs s)"
    and p: "hand (pcs s ! t) = {#}" "hand p = {#}"
    and le: "p = AtLoopEmpty \<Longrightarrow> complete s" and ex: "p = Exited \<Longrightarrow> complete s \<and> data_queue (sq s) = []"
  shows "sys_inv n acts (goto_pc s t p)"
  using inv hands_update [OF t, of p] p le ex
  by (auto simp: sys_inv_def dest!: mem_update)

lemma sys_inv_step:
  assumes "sys_step head s s'" and inv: "sys_inv n acts s" and head: "head_ok head"
  shows "sys_inv n acts s'"
  using assms(1)
proof (cases rule: sys_step_cases)
  case (done_test t)
  show ?thesis unfolding done_test(3) using inv done_test
    by (intro sys_inv_goto) (auto split: if_splits)
next
  case (loop_test t)
  have "complete s" using inv loop_test nth_mem [OF loop_test(1)] by (simp add: sys_inv_def)
  then show ?thesis unfolding loop_test(3) using inv loop_test
    by (intro sys_inv_goto) (auto split: if_splits simp: is_empty_def)
next
  case (if_test t)
  show ?thesis unfolding if_test(3) using inv if_test
    by (intro sys_inv_goto) (auto split: if_splits)
next
  case (pop t m q)
  have "hands ((pcs s)[t := Busy m]) = add_mset m (hands (pcs s))"
    using hands_update [OF pop(1), of "Busy m"] pop(2) by simp
  with inv pop show ?thesis by (auto simp: sys_inv_def dest!: mem_update)
next
  case (handle t m)
  have "add_mset m (hands ((pcs s)[t := head])) = hands (pcs s)"
    using hands_update [OF handle(1), of head] handle(2) head by (auto simp: head_ok_def)
  then have "add_mset m (mset (handled s) + hands ((pcs s)[t := head])) = mset (popped s)"
    using inv by (simp add: sys_inv_def flip: union_mset_add_mset_right)
  with inv handle head show ?thesis by (auto simp: sys_inv_def head_ok_def dest!: mem_update)
next
  case finish
  with inv show ?thesis by (simp add: sys_inv_def)
next
  case (do_push m acts')
  then have "\<not> complete s" using inv by (auto simp: sys_inv_def)
  with do_push inv show ?thesis by (auto simp: sys_inv_def)
next
  case (do_wait a acts')
  then show ?thesis using inv by (auto simp: sys_inv_def)
qed

lemma sys_inv_reach: "sys_reach head n acts s \<Longrightarrow> head_ok head \<Longrightarrow> sys_inv n acts s"
  by (induction rule: sys_reach.induct) (auto intro: sys_inv_init sys_inv_step)

section \<open>The length of the queue\<close>

text \<open>
  \<open>fits b q acts\<close>: started on a queue of length \<open>q\<close> that no loader empties, the actions never make
  it longer than \<open>b\<close>. A wait brings the length down to its argument.
\<close>

fun fits :: "nat \<Rightarrow> nat \<Rightarrow> action list \<Rightarrow> bool" where
  "fits b q [] \<longleftrightarrow> q \<le> b"
| "fits b q (Push m # acts) \<longleftrightarrow> q \<le> b \<and> fits b (Suc q) acts"
| "fits b q (WaitSize n # acts) \<longleftrightarrow> q \<le> b \<and> fits b (min q (unat n)) acts"
| "fits b q (WaitEmpty # acts) \<longleftrightarrow> q \<le> b \<and> fits b 0 acts"

lemma fits_mono: "fits b q acts \<Longrightarrow> q' \<le> q \<Longrightarrow> fits b q' acts"
proof (induction acts arbitrary: q q')
  case (Cons a acts)
  show ?case
  proof (cases a)
    case (Push m)
    with Cons.prems have "fits b (Suc q) acts" "Suc q' \<le> Suc q" by simp_all
    then have "fits b (Suc q') acts" by (rule Cons.IH)
    with Push Cons.prems show ?thesis by simp
  next
    case (WaitSize n)
    with Cons.prems have "fits b (min q (unat n)) acts" "min q' (unat n) \<le> min q (unat n)" by simp_all
    then have "fits b (min q' (unat n)) acts" by (rule Cons.IH)
    with WaitSize Cons.prems show ?thesis by simp
  qed (use Cons.prems in simp)
qed simp

lemma fits_le: "fits b q acts \<Longrightarrow> q \<le> b"
  by (cases "(b, q, acts)" rule: fits.cases) simp_all

lemma fits_step:
  assumes "sys_step head s s'" and "fits b (length (data_queue (sq s))) (todo s)"
  shows "fits b (length (data_queue (sq s'))) (todo s')"
  using assms(1)
proof (cases rule: sys_step_cases)
  case (pop t m q)
  with assms(2) show ?thesis by (auto intro: fits_mono)
next
  case (do_wait a acts)
  with assms(2) show ?thesis by (auto simp: min_absorb1)
qed (use assms(2) in auto)

lemma fits_reach: "sys_reach head n acts s \<Longrightarrow> fits b 0 acts \<Longrightarrow> fits b (length (data_queue (sq s))) (todo s)"
proof (induction rule: sys_reach.induct)
  case sys_start
  then show ?case by (simp add: system_init_def tsqueue_new_def)
next
  case (sys_next s s')
  then show ?case by (blast intro: fits_step)
qed

section \<open>Schedules\<close>

text \<open>A schedule names the thread that moves: \<^const>\<open>None\<close> is the main thread.\<close>

fun run_schedule :: "pc \<Rightarrow> nat option list \<Rightarrow> system \<Rightarrow> system option" where
  "run_schedule head [] s = Some s"
| "run_schedule head (None # sched) s =
     (case main_step s of None \<Rightarrow> None | Some s' \<Rightarrow> run_schedule head sched s')"
| "run_schedule head (Some t # sched) s =
     (if t < length (pcs s)
      then (case loader_step head t s of None \<Rightarrow> None | Some s' \<Rightarrow> run_schedule head sched s')
      else None)"

lemma run_schedule_reach:
  "run_schedule head sched s = Some s' \<Longrightarrow> sys_reach head n acts s \<Longrightarrow> sys_reach head n acts s'"
  by (induction head sched s rule: run_schedule.induct)
    (auto split: option.splits if_splits intro: sys_next by_main by_loader)

lemmas schedule_simps = system_init_def loader_step_def main_step_def goto_pc_def tsqueue_new_def
  push_def wait_and_pop_def is_empty_def wait_empty_ready_def

text \<open>One loader, one message, to the end.\<close>

definition one_loader_done :: "message \<Rightarrow> system" where
  "one_loader_done m =
     \<lparr>sq = tsqueue_new, pcs = [Exited], todo = [], complete = True, pushed = [m], popped = [m], handled = [m]\<rparr>"

lemma one_loader_done_reach: "sys_reach AtDone 1 [Push m] (one_loader_done m)"
proof -
  let ?sched = "[None, Some 0, Some 0, Some 0, Some 0, None, Some 0, Some 0]"
  have "run_schedule AtDone ?sched (system_init AtDone 1 [Push m]) = Some (one_loader_done m)"
    by (simp add: schedule_simps one_loader_done_def)
  from run_schedule_reach [OF this sys_start] show ?thesis .
qed

text \<open>Two loaders that both see one message.\<close>

definition second_loader_hangs :: "message \<Rightarrow> system" where
  "second_loader_hangs m =
     \<lparr>sq = tsqueue_new, pcs = [Exited, AtPop], todo = [], complete = True,
      pushed = [m], popped = [m], handled = [m]\<rparr>"

lemma second_loader_hangs_reach: "sys_reach AtDone 2 [Push m] (second_loader_hangs m)"
proof -
  let ?sched = "[Some 0, Some 1, None, Some 0, Some 1, Some 0, None, Some 0, Some 0, Some 0]"
  have "run_schedule AtDone ?sched (system_init AtDone 2 [Push m]) = Some (second_loader_hangs m)"
    by (simp add: schedule_simps second_loader_hangs_def numeral_2_eq_2)
  from run_schedule_reach [OF this sys_start] show ?thesis .
qed

text \<open>A loader that starts at the pop, when the main thread has finished.\<close>

definition main_done_in_hand :: "message \<Rightarrow> system" where
  "main_done_in_hand m =
     \<lparr>sq = tsqueue_new, pcs = [Busy m], todo = [], complete = True, pushed = [m], popped = [m], handled = []\<rparr>"

lemma main_done_in_hand_reach: "sys_reach AtPop 1 [Push m, WaitEmpty] (main_done_in_hand m)"
proof -
  let ?sched = "[None, Some 0, None, None]"
  have "run_schedule AtPop ?sched (system_init AtPop 1 [Push m, WaitEmpty]) = Some (main_done_in_hand m)"
    by (simp add: schedule_simps main_done_in_hand_def)
  from run_schedule_reach [OF this sys_start] show ?thesis .
qed

section \<open>Progress\<close>

text \<open>A loader is blocked at most in the pop, on an empty queue.\<close>

lemma loader_can_step:
  assumes "t < length (pcs s)" and "pcs s ! t \<noteq> Exited"
    and "pcs s ! t = AtPop \<Longrightarrow> data_queue (sq s) \<noteq> []"
  shows "\<exists>s'. sys_step head s s'"
proof -
  have "\<exists>s'. loader_step head t s = Some s'"
    using assms(2,3) by (cases "pcs s ! t") (auto simp: loader_step_def wait_and_pop_def split: list.splits)
  with by_loader [OF assms(1)] show ?thesis by blast
qed

lemma main_can_step:
  assumes "todo s = [] \<Longrightarrow> \<not> complete s" and "data_queue (sq s) = []"
  shows "\<exists>s'. sys_step head s s'"
proof -
  have "\<exists>s'. main_step s = Some s'"
    using assms by (auto simp: main_step_def wait_size_ready_def wait_empty_ready_def
        split: list.splits action.splits)
  with by_main show ?thesis by blast
qed

text \<open>A single polling loader is at the pop only while there is something to pop.\<close>

definition lone_inv :: "system \<Rightarrow> bool" where
  "lone_inv s \<longleftrightarrow> length (pcs s) = 1 \<and> (pcs s ! 0 = AtPop \<longrightarrow> data_queue (sq s) \<noteq> [])"

lemma lone_inv_reach: "sys_reach AtDone 1 acts s \<Longrightarrow> lone_inv s"
proof (induction rule: sys_reach.induct)
  case sys_start
  show ?case by (simp add: system_init_def lone_inv_def)
next
  case (sys_next s s')
  from sys_next.hyps(2) show ?case
    by (cases rule: sys_step_cases) (use sys_next.IH in \<open>auto simp: lone_inv_def is_empty_def\<close>)
qed

text \<open>A loader whose loop has no end condition never leaves it.\<close>

lemma endless_reach: "sys_reach AtPop n acts s \<Longrightarrow> set (pcs s) \<subseteq> {AtPop} \<union> range Busy"
proof (induction rule: sys_reach.induct)
  case sys_start
  show ?case by (auto simp: system_init_def)
next
  case (sys_next s s')
  have no: "p \<in> {AtPop} \<union> range Busy" if "p \<in> set (pcs s)" for p using sys_next.IH that by auto
  from sys_next.hyps(2) show ?case
  proof (cases rule: sys_step_cases)
    case (done_test t)
    with no [OF nth_mem [OF done_test(1)]] show ?thesis by auto
  next
    case (loop_test t)
    with no [OF nth_mem [OF loop_test(1)]] show ?thesis by auto
  next
    case (if_test t)
    with no [OF nth_mem [OF if_test(1)]] show ?thesis by auto
  qed (use no in \<open>auto dest!: mem_update\<close>)
qed

text \<open>Without any loader nothing is popped, and a wait for the empty queue after a push never ends.\<close>

lemma nobody_pops: "sys_reach head 0 acts s \<Longrightarrow> pcs s = [] \<and> popped s = [] \<and> data_queue (sq s) = pushed s \<and>
  pushed s @ pushes (todo s) = pushes acts"
proof (induction rule: sys_reach.induct)
  case sys_start
  show ?case by (simp add: system_init_def tsqueue_new_def)
next
  case (sys_next s s')
  from sys_next.hyps(2) show ?case
    by (cases rule: sys_step_cases) (use sys_next.IH in auto)
qed

lemma no_loader_blocks:
  assumes "sys_reach head 0 (pre @ Push m # mid @ WaitEmpty # post) s"
  shows "length post < length (todo s)"
proof -
  have "\<exists>done. pre @ Push m # mid @ WaitEmpty # post = done @ todo s \<and> length post < length (todo s)"
    using assms
  proof (induction rule: sys_reach.induct)
    case sys_start
    show ?case by (simp add: system_init_def)
  next
    case (sys_next s s')
    then obtain dn where dn: "pre @ Push m # mid @ WaitEmpty # post = dn @ todo s" "length post < length (todo s)" by blast
    note none = nobody_pops [OF sys_next.hyps(1)]
    have shorter: "length post < length acts'" if "todo s = a # acts'" "a = WaitEmpty \<longrightarrow> data_queue (sq s) = []" for a acts'
    proof (rule ccontr)
      assume "\<not> length post < length acts'"
      with dn(2) that(1) have "length acts' = length post" by simp
      moreover from dn(1) that(1) have "(pre @ Push m # mid @ [WaitEmpty]) @ post = (dn @ [a]) @ acts'" by simp
      ultimately have ends: "pre @ Push m # mid @ [WaitEmpty] = dn @ [a]"
        using append_eq_append_conv [of "pre @ Push m # mid @ [WaitEmpty]" "dn @ [a]" post acts'] by auto
      then have "last (pre @ Push m # mid @ [WaitEmpty]) = a" "butlast (pre @ Push m # mid @ [WaitEmpty]) = dn"
        by (simp_all only: last_snoc butlast_snoc)
      then have "a = WaitEmpty" "dn = pre @ Push m # mid" by (simp_all add: butlast_append)
      with that(2) none dn(1) that(1) have "pushes dn = []" by auto
      with \<open>dn = pre @ Push m # mid\<close> show False by simp
    qed
    from sys_next.hyps(2) show ?case
    proof (cases rule: sys_step_cases)
      case (do_push x acts')
      with shorter [OF do_push(1)] dn show ?thesis by (intro exI [of _ "dn @ [Push x]"]) simp
    next
      case (do_wait a acts')
      have "length post < length acts'" using shorter [OF do_wait(1)] do_wait(2) by auto
      with do_wait dn show ?thesis by (intro exI [of _ "dn @ [a]"]) simp
    qed (use dn none in auto)
  qed
  then show ?thesis by blast
qed

section \<open>Properties\<close>

text \<open>C5: The queue between the preparer and any number of loaders neither loses, duplicates nor reorders
  a message, in every interleaving: the messages popped so far, those still queued and those not yet
  pushed are together exactly what the main thread pushes, in its order, and every popped message is
  either handled or in the hands of exactly one loader.\<close>

theorem messages_conserved:
  assumes "sys_reach head n acts s" and "head = AtDone \<or> head = AtPop"
  shows "popped s @ data_queue (sq s) @ pushes (todo s) = pushes acts \<and>
    mset (handled s) + hands (pcs s) = mset (popped s)"
proof -
  have "sys_inv n acts s" using sys_inv_reach [OF assms(1)] assms(2) by (simp add: head_ok_def)
  then have "popped s @ data_queue (sq s) = pushed s" "pushed s @ pushes (todo s) = pushes acts"
    "mset (handled s) + hands (pcs s) = mset (popped s)" by (simp_all add: sys_inv_def)
  then show ?thesis by (metis append.assoc)
qed

lemma messages_conserved_witness:
  "popped (main_done_in_hand default_message) = [default_message] \<and>
   {#} + hands [Busy default_message] = {#default_message#}"
  using messages_conserved [OF main_done_in_hand_reach [of default_message]]
  by (simp add: main_done_in_hand_def tsqueue_new_def)

lemma joined_facts:
  assumes "sys_reach AtDone n acts s" and "0 < n" and "all_exited s"
  shows "complete s \<and> todo s = [] \<and> data_queue (sq s) = [] \<and>
    popped s = pushes acts \<and> mset (handled s) = mset (pushes acts)"
proof -
  have inv: "sys_inv n acts s" using sys_inv_reach [OF assms(1)] by (simp add: head_ok_def)
  have ex: "p = Exited" if "p \<in> set (pcs s)" for p
    using assms(3) that by (simp add: all_exited_def list_all_iff)
  have "pcs s \<noteq> []" using inv assms(2) by (auto simp: sys_inv_def)
  with ex have "Exited \<in> set (pcs s)" using last_in_set by metis
  moreover have "hands (pcs s) = {#}" using ex by (intro hands_idle) fastforce
  ultimately show ?thesis using inv by (auto simp: sys_inv_def)
qed

text \<open>C9: When the main thread has joined the loaders of the MySQL driver, it has done all its pushes and
  waits, the queue is empty, and every message it pushed has been handled exactly once.\<close>

theorem joined_means_handled:
  assumes "sys_reach AtDone n acts s" and "0 < n" and "all_exited s"
  shows "complete s \<and> todo s = [] \<and> data_queue (sq s) = [] \<and>
    popped s = pushes acts \<and> mset (handled s) = mset (pushes acts)"
  by (rule joined_facts [OF assms])

lemma joined_means_handled_witness: "mset (handled (one_loader_done default_message)) = mset [default_message]"
  using joined_means_handled [OF one_loader_done_reach [of default_message]]
  by (simp add: one_loader_done_def all_exited_def)

text \<open>Until it has finished the main thread cannot be stuck for good: while the completion flag is not
  set some thread can move, in every reachable state, for every driver and any number of loaders.\<close>

theorem no_deadlock_before_completion:
  assumes "sys_reach head n acts s" and "head = AtDone \<or> head = AtPop" and "0 < n" and "\<not> complete s"
  shows "\<exists>s'. sys_step head s s'"
proof (cases "data_queue (sq s) = []")
  case True
  then show ?thesis using assms(4) by (intro main_can_step)
next
  case False
  have inv: "sys_inv n acts s" using sys_inv_reach [OF assms(1)] assms(2) by (simp add: head_ok_def)
  then have n: "0 < length (pcs s)" using assms(3) by (simp add: sys_inv_def)
  have "pcs s ! 0 \<noteq> Exited" using inv assms(4) nth_mem [OF n] by (auto simp: sys_inv_def)
  with n False show ?thesis by (intro loader_can_step)
qed

lemma no_deadlock_before_completion_witness: "\<exists>s'. sys_step AtPop (system_init AtPop 3 [WaitEmpty]) s'"
  using no_deadlock_before_completion [OF sys_start, of AtPop 3 "[WaitEmpty]"] by (simp add: system_init_def)

text \<open>After completion the MySQL driver can hang: two loaders that both see the last message before
  either pops it end with one of them in \<open>wait_and_pop\<close> on an empty queue that nobody will fill. No
  thread can move any more and \<open>JoinThreads\<close> waits for ever.\<close>

theorem two_loaders_can_hang:
  "\<exists>s. sys_reach AtDone 2 [Push m] s \<and> complete s \<and> \<not> all_exited s \<and> (\<nexists>s'. sys_step AtDone s s')"
proof (intro exI conjI)
  show "sys_reach AtDone 2 [Push m] (second_loader_hangs m)" by (rule second_loader_hangs_reach)
  show "\<nexists>s'. sys_step AtDone (second_loader_hangs m) s'"
    by (auto simp: second_loader_hangs_def schedule_simps less_Suc_eq elim!: sys_stepE)
qed (simp_all add: second_loader_hangs_def all_exited_def)

text \<open>A single loader of the MySQL driver never hangs: in every reachable state it has left its loop
  after completion, or some thread can move.\<close>

theorem one_loader_never_hangs:
  assumes "sys_reach AtDone 1 acts s"
  shows "(complete s \<and> all_exited s) \<or> (\<exists>s'. sys_step AtDone s s')"
proof -
  have inv: "sys_inv 1 acts s" using sys_inv_reach [OF assms] by (simp add: head_ok_def)
  from lone_inv_reach [OF assms] have one: "length (pcs s) = 1" "pcs s ! 0 = AtPop \<Longrightarrow> data_queue (sq s) \<noteq> []"
    by (simp_all add: lone_inv_def)
  show ?thesis
  proof (cases "pcs s ! 0 = Exited")
    case True
    with one(1) have "pcs s = [Exited]" by (cases "pcs s") auto
    with inv show ?thesis by (simp add: sys_inv_def all_exited_def)
  next
    case False
    with one show ?thesis by (auto intro: loader_can_step [of 0])
  qed
qed

lemma one_loader_never_hangs_witness: "\<exists>s'. sys_step AtDone (system_init AtDone 1 [Push default_message]) s'"
  using one_loader_never_hangs [OF sys_start, of "[Push default_message]"] by (simp add: system_init_def)

text \<open>C40: The loaders of the MongoDB and Cassandra drivers never leave their loop, so a \<open>JoinThreads\<close> that
  waits for them (Cassandra) does not return; and where they are detached (MongoDB), the process can
  end while a message that was pushed before \<open>wait_empty\<close> returned is popped but not handled.\<close>

theorem endless_loaders:
  "(\<forall>n acts s. sys_reach AtPop n acts s \<longrightarrow> 0 < n \<longrightarrow> \<not> all_exited s) \<and>
   (\<exists>s. sys_reach AtPop 1 [Push m, WaitEmpty] s \<and> complete s \<and> handled s = [])"
proof (intro conjI allI impI)
  fix n acts s
  assume r: "sys_reach AtPop n acts s" and n: "0 < n"
  have "pcs s \<noteq> []" using sys_inv_reach [OF r] n by (auto simp: sys_inv_def head_ok_def)
  then have "hd (pcs s) \<in> set (pcs s)" by (rule hd_in_set)
  with endless_reach [OF r] show "\<not> all_exited s" by (fastforce simp: all_exited_def list_all_iff)
next
  show "\<exists>s. sys_reach AtPop 1 [Push m, WaitEmpty] s \<and> complete s \<and> handled s = []"
    using main_done_in_hand_reach [of m] by (intro exI [of _ "main_done_in_hand m"]) (simp add: main_done_in_hand_def)
qed

lemma endless_loaders_witness: "\<not> all_exited (main_done_in_hand default_message)"
  using endless_loaders [of default_message, THEN conjunct1, rule_format, OF main_done_in_hand_reach] by simp

end
