(* ===== verification/GenericDriver.thy ===== *)
theory GenericDriver
  imports Config Pareto LatencyStats SampledStats
begin

text \<open>
  \<open>GenericDriver.hpp\<close>: the base class of the three drivers. Its virtual functions are the fields of
  the record \<open>driver\<close>, over the type \<open>'db\<close> of what stands for the database; a driver's \<open>Prep\<close> and
  \<open>Run\<close> start threads, and give the list of them. The locale is what the preparer relies on when it
  asks for the range of the existing timestamps.
\<close>

section \<open>Ranges and threads\<close>

record ts_range =
  ts_min :: u64
  ts_max :: u64

record dev_range =
  dev_min :: u32
  dev_max :: u32

text \<open>A thread with its index and the operation types it displays; whether it is kept for a join.\<close>

datatype thread =
    InsertThread nat "message_type list"
  | SelectThread "message_type list"

section \<open>The object\<close>

record generic_driver =
  user :: string
  pass :: string
  database :: string
  url :: string
  PGen :: "pareto option"
  latencyStatsSet :: bool
  ostreamSet :: bool
  threads :: "thread list"

definition GenericDriver :: "string \<Rightarrow> string \<Rightarrow> string \<Rightarrow> string \<Rightarrow> generic_driver" where
  "GenericDriver u p d l =
     \<lparr>user = u, pass = p, database = d, url = l, PGen = None, latencyStatsSet = False,
      ostreamSet = False, threads = []\<rparr>"

definition SetGenerator :: "generic_driver \<Rightarrow> pareto \<Rightarrow> generic_driver" where
  "SetGenerator g pg = g\<lparr>PGen := Some pg\<rparr>"

definition setLatencyStats :: "generic_driver \<Rightarrow> generic_driver" where
  "setLatencyStats g = g\<lparr>latencyStatsSet := True\<rparr>"

definition setOstreamSampledStats :: "generic_driver \<Rightarrow> generic_driver" where
  "setOstreamSampledStats g = g\<lparr>ostreamSet := True\<rparr>"

text \<open>\<open>JoinThreads\<close> waits for the threads that are in the vector.\<close>

definition JoinThreads :: "(thread \<Rightarrow> bool) \<Rightarrow> generic_driver \<Rightarrow> bool" where
  "JoinThreads ended g \<longleftrightarrow> list_all ended (threads g)"

section \<open>The virtual functions\<close>

record 'db driver =
  drv_CreateSchema :: "config \<Rightarrow> 'db \<Rightarrow> 'db res"
  drv_Prep :: "config \<Rightarrow> thread list"
  drv_Run :: "config \<Rightarrow> thread list"
  drv_getTimestampRange :: "config \<Rightarrow> 'db \<Rightarrow> u32 \<Rightarrow> ts_range res"

locale range_provider =
  fixes getRange :: "config \<Rightarrow> 'db \<Rightarrow> u32 \<Rightarrow> ts_range res"
  assumes range_max: "getRange cfg db t = Inr r \<Longrightarrow> StartTimestamp \<le> ts_max r"
begin

text \<open>The preparer's \<open>std::max\<close> with \<open>StartTimestamp\<close> is redundant, and its start is a new minute.\<close>

lemma next_minute:
  assumes "getRange cfg db t = Inr r" and "unat (ts_max r) + 60 < 2 ^ 64"
  shows "max (ts_max r + 60) StartTimestamp = ts_max r + 60 \<and> ts_max r < ts_max r + 60"
proof -
  have u: "unat (ts_max r + 60) = unat (ts_max r) + 60"
    using assms(2) by (simp add: unat_word_ariths)
  then have "ts_max r < ts_max r + 60" by (simp add: word_less_nat_alt)
  moreover have "StartTimestamp \<le> ts_max r" by (rule range_max [OF assms(1)])
  ultimately show ?thesis by (simp add: max_absorb1)
qed

end

end
