(* ===== verification/Preparer.thy ===== *)
theory Preparer
  imports GenericDriver Loader
begin

text \<open>
  \<open>Preparer.hpp\<close> and \<open>Preparer.cpp\<close>: the two modes of the benchmark. What the preparer does with
  \<open>tsQueue\<close> is the list of actions \<open>trace\<close>, in order; \<open>Loader\<close> runs them against the loader threads.
  The draws of the generator are the function \<open>u\<close>, by the number of the draw.
\<close>

section \<open>State\<close>

record preparer =
  insertProgress :: u32
  progressLoad :: bool
  trace :: "action list"
  draws :: nat
  deleteTimestamp :: u64

definition Preparer :: preparer where
  "Preparer = \<lparr>insertProgress = 0, progressLoad = True, trace = [], draws = 0, deleteTimestamp = 0\<rparr>"

section \<open>The time loop\<close>

text \<open>
  Both modes step a \<open>uint64_t\<close> by 60 while a condition holds. Near the end of the range the
  addition wraps, so the loop need not end: not ending is \<^const>\<open>None\<close>.
\<close>

partial_function (option) time_loop ::
  "(u64 \<Rightarrow> bool) \<Rightarrow> (u64 \<Rightarrow> 's \<Rightarrow> 's res) \<Rightarrow> u64 \<Rightarrow> 's \<Rightarrow> 's res option" where
  "time_loop go body now s =
     (if go now
      then (case body now s of Inl e \<Rightarrow> Some (Inl e) | Inr s' \<Rightarrow> time_loop go body (now + 60) s')
      else Some (Inr s))"

declare time_loop.simps [code]

section \<open>\<open>Prep\<close>\<close>

text \<open>The loop over the tables: \<open>table_id\<close> and \<open>dc\<close> are signed, the bounds are not.\<close>

definition push_tables :: "config \<Rightarrow> u64 \<Rightarrow> int \<Rightarrow> action list \<Rightarrow> action list res" where
  "push_tables cfg now dc tr =
     int_loop 1 (unat (DBTables cfg))
       (\<lambda>table_id tr. Inr (tr @ [Push (Message Insert (ucast now) (word_of_int dc) (word_of_int table_id))])) tr"

definition prep_device :: "config \<Rightarrow> u64 \<Rightarrow> int \<Rightarrow> preparer \<Rightarrow> preparer res" where
  "prep_device cfg now dc p =
     rbind (push_tables cfg now dc (trace p)) (\<lambda>tr.
     Inr (p\<lparr>insertProgress := insertProgress p + DBTables cfg,
            trace := tr @ [WaitSize (LoaderThreads cfg * 2)]\<rparr>))"

definition prep_minute :: "config \<Rightarrow> u64 \<Rightarrow> preparer \<Rightarrow> preparer res" where
  "prep_minute cfg now p =
     rbind (int_loop 1 (unat (MaxDevices cfg)) (prep_device cfg now) p) (\<lambda>p.
     Inr (p\<lparr>trace := trace p @ [WaitEmpty]\<rparr>))"

text \<open>
  The reporter thread is created before \<open>getTimestampRange\<close> is called; an exception from there
  destroys a thread object that was not joined, which ends the process.
\<close>
definition Prep ::
  "config \<Rightarrow> 'db driver \<Rightarrow> 'db \<Rightarrow> (preparer \<times> 'db \<times> thread list) res option" where
  "Prep cfg drv db =
     (case drv_CreateSchema drv cfg db of
        Inl e \<Rightarrow> Some (Inl e)
      | Inr db' \<Rightarrow>
          (let ths = drv_Prep drv cfg in
           case drv_getTimestampRange drv cfg db' 0 of
             Inl e \<Rightarrow> Some (Inl (uncaught e))
           | Inr tsRange \<Rightarrow>
               (let startTimestamp = max (ts_max tsRange + 60) StartTimestamp;
                    stop = startTimestamp + ucast (LoadMins cfg * 60) in
                case time_loop (\<lambda>now. now < stop) (prep_minute cfg) startTimestamp Preparer of
                  None \<Rightarrow> None
                | Some (Inl e) \<Rightarrow> Some (Inl e)
                | Some (Inr p) \<Rightarrow> Some (Inr (p\<lparr>progressLoad := False\<rparr>, db', ths)))))"

section \<open>\<open>Run\<close>\<close>

definition run_minute :: "config \<Rightarrow> pareto \<Rightarrow> (nat \<Rightarrow> real) \<Rightarrow> u64 \<Rightarrow> preparer \<Rightarrow> preparer res" where
  "run_minute cfg pg u now p =
     (let devicesCnt = word_of_int (GetNext_int pg (sint (MaxDevices cfg)) 0 (u (draws p))) :: u32 in
      rbind (int_loop 1 (unat devicesCnt)
               (\<lambda>dc p. rbind (push_tables cfg now dc (trace p)) (\<lambda>tr. Inr (p\<lparr>trace := tr\<rparr>)))
               (p\<lparr>draws := draws p + 1\<rparr>)) (\<lambda>p.
      Inr (p\<lparr>deleteTimestamp := deleteTimestamp p + 60,
             trace := trace p @ [WaitSize (LoaderThreads cfg * 100000)],
             insertProgress := ucast now\<rparr>)))"

definition Run ::
  "config \<Rightarrow> 'db driver \<Rightarrow> pareto \<Rightarrow> (nat \<Rightarrow> real) \<Rightarrow> 'db \<Rightarrow> (preparer \<times> thread list) res option" where
  "Run cfg drv pg u db =
     (case drv_getTimestampRange drv cfg db 0 of
        Inl e \<Rightarrow> Some (Inl e)
      | Inr tsRange \<Rightarrow>
          (let ths = drv_Run drv cfg;
               tsWindow = ucast (LoadMins cfg * 60) :: u64;
               startTimestamp = ts_max tsRange + 60;
               endTimestamp = ts_max tsRange + tsWindow;
               p = Preparer\<lparr>insertProgress := ucast startTimestamp, deleteTimestamp := ts_min tsRange\<rparr> in
           case time_loop (\<lambda>now. now \<le> endTimestamp) (run_minute cfg pg u) startTimestamp p of
             None \<Rightarrow> None
           | Some (Inl e) \<Rightarrow> Some (Inl e)
           | Some (Inr p) \<Rightarrow> Some (Inr (p\<lparr>progressLoad := False\<rparr>, ths))))"

section \<open>\<open>prepProgressPrint\<close>\<close>

text \<open>
  The numbers of one progress line: \<open>insertProgress - startTs\<close> is computed in \<open>uint64_t\<close> and wraps
  while the progress is behind. A division by a total of 0 gives no finite number (\<^const>\<open>None\<close>).
\<close>

record progress_line =
  pl_time :: int
  pl_done :: u64
  pl_total :: u64
  pl_percent :: "real option"
  pl_left :: "real option"
  pl_estimate :: "real option"

definition prepProgressPrint :: "u64 \<Rightarrow> u64 \<Rightarrow> int \<Rightarrow> preparer \<Rightarrow> progress_line" where
  "prepProgressPrint startTs tot secFromStart p =
     (let progress = ucast (insertProgress p) :: u64;
          dn = progress - startTs;
          est = (if progress > startTs
                 then (if tot = 0 then None
                       else Some (of_int secFromStart / (real (unat dn) / real (unat tot))))
                 else Some 0) in
      \<lparr>pl_time = secFromStart, pl_done = dn, pl_total = tot,
       pl_percent = (if tot = 0 then None else Some (real (unat dn) * 100 / real (unat tot))),
       pl_left = (case est of None \<Rightarrow> None | Some e \<Rightarrow> Some (e - of_int secFromStart)),
       pl_estimate = est\<rparr>)"

end
