(* ===== verification/PreparerFacts.thy ===== *)
theory PreparerFacts
  imports Preparer LoaderFacts
begin

text \<open>
  What the two modes push: the exact sequence of actions, the messages in it, the progress counter
  and the bounds on the queue. The hypotheses \<open>small_config\<close> keep the counters in range: fewer than
  \<open>2^31 - 1\<close> tables and devices (the loop counters are \<open>int\<close>), and a window whose seconds fit
  \<open>unsigned int\<close>.
\<close>

section \<open>The time loop\<close>

lemma time_loop_eq:
  assumes "\<And>k. k < n \<Longrightarrow> go (s + of_nat (60 * k))" and "\<not> go (s + of_nat (60 * n))"
  shows "time_loop go body s st = Some (rfold body (map (\<lambda>k. s + of_nat (60 * k)) [0..<n]) st)"
  using assms
proof (induction n arbitrary: s st)
  case 0
  then show ?case by (simp add: time_loop.simps [of go body s st])
next
  case (Suc n)
  have go: "go s" using Suc.prems(1) [of 0] by simp
  show ?case
  proof (cases "body s st")
    case (Inl e)
    with go show ?thesis
      by (simp add: time_loop.simps [of go body s st] map_upt_Suc del: upt_Suc)
  next
    case (Inr st')
    have shift: "s + 60 + of_nat (60 * k) = s + of_nat (60 * Suc k)" for k
      by (simp add: algebra_simps)
    have "time_loop go body (s + 60) st' = Some (rfold body (map (\<lambda>k. s + 60 + of_nat (60 * k)) [0..<n]) st')"
      using Suc.prems by (intro Suc.IH) (simp_all only: shift Suc_less_eq, simp)
    then have "time_loop go body (s + 60) st' = Some (rfold body (map (\<lambda>k. s + of_nat (60 * Suc k)) [0..<n]) st')"
      by (simp only: shift)
    with go Inr show ?thesis
      by (simp add: time_loop.simps [of go body s st] map_upt_Suc del: upt_Suc of_nat_mult of_nat_Suc mult_Suc_right)
  qed
qed

lemma unat_plus_nat: "unat s + k < 2 ^ 64 \<Longrightarrow> unat (s + of_nat k :: u64) = unat s + k" for s :: u64
proof -
  assume a: "unat s + k < 2 ^ 64"
  then have "unat (of_nat k :: u64) = k" by (simp add: unat_of_nat)
  with a show ?thesis by (simp add: unat_word_ariths(1))
qed

section \<open>Loops that append\<close>

lemma rfold_append_acts:
  assumes "\<And>x p. x \<in> set xs \<Longrightarrow> f x p = Inr (p\<lparr>insertProgress := insertProgress p + c, trace := trace p @ g x\<rparr>)"
  shows "rfold f xs p = Inr (p\<lparr>insertProgress := insertProgress p + of_nat (length xs) * c,
                               trace := trace p @ concat (map g xs)\<rparr>)"
  using assms by (induction xs arbitrary: p) (simp_all add: algebra_simps)

lemma fold_append: "fold (\<lambda>x tr. tr @ [g x]) xs tr = tr @ map g xs"
  by (induction xs arbitrary: tr) simp_all

section \<open>The actions of \<open>Prep\<close>\<close>

definition small_config :: "config \<Rightarrow> bool" where
  "small_config cfg \<longleftrightarrow>
     unat (DBTables cfg) < 2147483647 \<and> unat (MaxDevices cfg) < 2147483647 \<and>
     unat (LoadMins cfg) * 60 < 2 ^ 32"

definition insert_message :: "u64 \<Rightarrow> int \<Rightarrow> int \<Rightarrow> message" where
  "insert_message now d t = Message Insert (ucast now) (word_of_int d) (word_of_int t)"

definition device_acts :: "config \<Rightarrow> u64 \<Rightarrow> int \<Rightarrow> action list" where
  "device_acts cfg now d = map (\<lambda>t. Push (insert_message now d t)) [1..int (unat (DBTables cfg))]"

definition minute_acts :: "config \<Rightarrow> u64 \<Rightarrow> action list" where
  "minute_acts cfg now =
     concat (map (\<lambda>d. device_acts cfg now d @ [WaitSize (LoaderThreads cfg * 2)]) [1..int (unat (MaxDevices cfg))])
     @ [WaitEmpty]"

definition minutes :: "config \<Rightarrow> u64 \<Rightarrow> u64 list" where
  "minutes cfg start = map (\<lambda>k. start + of_nat (60 * k)) [0..<unat (LoadMins cfg)]"

lemma push_tables_eq:
  "unat (DBTables cfg) < 2147483647 \<Longrightarrow> push_tables cfg now d tr = Inr (tr @ device_acts cfg now d)"
  unfolding push_tables_def
  by (subst int_loop_eq_rfold) (simp_all add: rfold_pure fold_append device_acts_def insert_message_def)

lemma prep_device_eq:
  "small_config cfg \<Longrightarrow> prep_device cfg now d p = Inr (p\<lparr>insertProgress := insertProgress p + DBTables cfg,
      trace := trace p @ (device_acts cfg now d @ [WaitSize (LoaderThreads cfg * 2)])\<rparr>)"
  by (simp add: prep_device_def push_tables_eq small_config_def)

lemma prep_minute_eq:
  assumes "small_config cfg"
  shows "prep_minute cfg now p =
    Inr (p\<lparr>insertProgress := insertProgress p + MaxDevices cfg * DBTables cfg,
           trace := trace p @ minute_acts cfg now\<rparr>)"
proof -
  have "int_loop 1 (unat (MaxDevices cfg)) (prep_device cfg now) p
      = rfold (prep_device cfg now) [1..int (unat (MaxDevices cfg))] p"
    using assms by (intro int_loop_eq_rfold) (simp add: small_config_def)
  also have "\<dots> = Inr (p\<lparr>insertProgress := insertProgress p + MaxDevices cfg * DBTables cfg,
      trace := trace p @ concat (map (\<lambda>d. device_acts cfg now d @ [WaitSize (LoaderThreads cfg * 2)])
                                      [1..int (unat (MaxDevices cfg))])\<rparr>)"
    using rfold_append_acts [of "[1..int (unat (MaxDevices cfg))]" "prep_device cfg now", OF prep_device_eq [OF assms]]
    by simp
  finally show ?thesis by (simp add: prep_minute_def minute_acts_def)
qed

lemma load_seconds:
  "small_config cfg \<Longrightarrow> unat (LoadMins cfg * 60) = 60 * unat (LoadMins cfg)"
  by (simp add: small_config_def unat_word_ariths(2))

lemma load_seconds_64: "small_config cfg \<Longrightarrow> (ucast (LoadMins cfg * 60) :: u64) = of_nat (60 * unat (LoadMins cfg))"
  by (metis load_seconds of_nat_unat)

lemma prep_loop_eq:
  assumes "small_config cfg" and "unat start + 60 * unat (LoadMins cfg) < 2 ^ 64"
  shows "time_loop (\<lambda>now. now < start + ucast (LoadMins cfg * 60)) (prep_minute cfg) start p =
    Some (Inr (p\<lparr>insertProgress := insertProgress p + LoadMins cfg * (MaxDevices cfg * DBTables cfg),
                 trace := trace p @ concat (map (minute_acts cfg) (minutes cfg start))\<rparr>))"
proof -
  have stop: "unat (start + ucast (LoadMins cfg * 60)) = unat start + 60 * unat (LoadMins cfg)"
    unfolding load_seconds_64 [OF assms(1)] using assms(2) by (rule unat_plus_nat)
  have now: "unat (start + of_nat (60 * k)) = unat start + 60 * k" if "k \<le> unat (LoadMins cfg)" for k
    using assms(2) that by (intro unat_plus_nat) linarith
  have "time_loop (\<lambda>now. now < start + ucast (LoadMins cfg * 60)) (prep_minute cfg) start p
      = Some (rfold (prep_minute cfg) (minutes cfg start) p)"
    unfolding minutes_def
  proof (rule time_loop_eq)
    fix k
    assume "k < unat (LoadMins cfg)"
    then show "start + of_nat (60 * k) < start + ucast (LoadMins cfg * 60)"
      unfolding word_less_nat_alt stop by (subst now) simp_all
  next
    show "\<not> start + of_nat (60 * unat (LoadMins cfg)) < start + ucast (LoadMins cfg * 60)"
      unfolding word_less_nat_alt stop by (subst now) simp_all
  qed
  also have "rfold (prep_minute cfg) (minutes cfg start) p
      = Inr (p\<lparr>insertProgress := insertProgress p + of_nat (length (minutes cfg start)) * (MaxDevices cfg * DBTables cfg),
               trace := trace p @ concat (map (minute_acts cfg) (minutes cfg start))\<rparr>)"
    by (rule rfold_append_acts) (rule prep_minute_eq [OF assms(1)])
  finally show ?thesis by (simp add: minutes_def)
qed

section \<open>The messages in a trace\<close>

definition all_messages :: "config \<Rightarrow> u64 \<Rightarrow> message list" where
  "all_messages cfg start =
     map (\<lambda>(now, d, t). insert_message now d t)
       (List.product (minutes cfg start)
         (List.product [1..int (unat (MaxDevices cfg))] [1..int (unat (DBTables cfg))]))"

lemma pushes_map_Push [simp]: "pushes (map (\<lambda>x. Push (f x)) xs) = map f xs"
  by (induction xs) simp_all

lemma pushes_concat: "pushes (concat xss) = concat (map pushes xss)"
  by (induction xss) simp_all

lemma map_product: "map f (List.product xs ys) = concat (map (\<lambda>x. map (\<lambda>y. f (x, y)) ys) xs)"
  by (induction xs) simp_all

lemma pushes_minute:
  "pushes (minute_acts cfg now) =
     map (\<lambda>(d, t). insert_message now d t)
       (List.product [1..int (unat (MaxDevices cfg))] [1..int (unat (DBTables cfg))])"
  by (simp add: minute_acts_def device_acts_def pushes_concat map_product comp_def)

lemma pushes_prep: "pushes (concat (map (minute_acts cfg) (minutes cfg start))) = all_messages cfg start"
  by (simp add: pushes_concat comp_def pushes_minute all_messages_def map_product [of _ "minutes cfg start"])

lemma length_all_messages:
  "length (all_messages cfg start) = unat (LoadMins cfg) * (unat (MaxDevices cfg) * unat (DBTables cfg))"
  by (simp add: all_messages_def minutes_def)

text \<open>Different (minute, device, table) give different messages, in 32 bits.\<close>

lemma word_of_int_inj:
  "1 \<le> i \<Longrightarrow> i < 2 ^ 32 \<Longrightarrow> 1 \<le> j \<Longrightarrow> j < 2 ^ 32 \<Longrightarrow> (word_of_int i :: u32) = word_of_int j \<Longrightarrow> i = j"
  by (drule arg_cong [of _ _ uint]) (simp only: uint_word_of_int, simp)

lemma minute_inj:
  fixes start :: u64
  assumes "(ucast (start + of_nat (60 * j)) :: u32) = ucast (start + of_nat (60 * k))"
    and "60 * j < 2 ^ 32" and "60 * k < 2 ^ 32"
  shows "j = k"
proof -
  have u: "(ucast (start + of_nat m) :: u32) = of_nat (unat start) + of_nat m" for m :: nat
  proof -
    have "(ucast (start + of_nat m) :: u32) = of_nat (unat (start + of_nat m))" by simp
    also have "unat (start + of_nat m) = (unat start + m) mod 2 ^ 64"
      by (simp add: unat_word_ariths(1) unat_of_nat mod_add_right_eq)
    also have "(of_nat ((unat start + m) mod 2 ^ 64) :: u32) = of_nat (unat start + m)"
      unfolding word_of_nat_eq_iff take_bit_eq_mod by (rule mod_mod_cancel) simp
    finally show ?thesis by simp
  qed
  from assms(1) have "(of_nat (60 * j) :: u32) = of_nat (60 * k)" unfolding u by simp
  then have "unat (of_nat (60 * j) :: u32) = unat (of_nat (60 * k) :: u32)" by (rule arg_cong)
  then show ?thesis using assms(2,3) unfolding unat_of_nat by simp
qed

lemma distinct_all_messages:
  assumes "small_config cfg"
  shows "distinct (all_messages cfg start)"
proof -
  let ?D = "unat (MaxDevices cfg)" and ?T = "unat (DBTables cfg)"
  have D: "?D < 2 ^ 31" and T: "?T < 2 ^ 31" and L: "unat (LoadMins cfg) * 60 < 2 ^ 32"
    using assms by (simp_all add: small_config_def)
  have mins: "x = y" if "x \<in> set (minutes cfg start)" "y \<in> set (minutes cfg start)" "(ucast x :: u32) = ucast y" for x y
  proof -
    from that(1,2) obtain j k where jk: "x = start + of_nat (60 * j)" "j < unat (LoadMins cfg)"
      "y = start + of_nat (60 * k)" "k < unat (LoadMins cfg)" by (auto simp: minutes_def)
    from that(3) have "j = k" using minute_inj [of start j k] jk L by simp
    with jk show ?thesis by simp
  qed
  have "distinct (minutes cfg start)"
  proof -
    have "inj_on (\<lambda>k. start + of_nat (60 * k)) (set [0..<unat (LoadMins cfg)])"
    proof (rule inj_onI)
      fix j k
      assume "j \<in> set [0..<unat (LoadMins cfg)]" "k \<in> set [0..<unat (LoadMins cfg)]"
        and "start + of_nat (60 * j) = start + of_nat (60 * k)"
      then show "j = k" using minute_inj [of start j k] L by simp
    qed
    then show ?thesis by (simp add: minutes_def distinct_map)
  qed
  moreover have "inj_on (\<lambda>(now, d, t). insert_message now d t)
      (set (minutes cfg start) \<times> {1..int ?D} \<times> {1..int ?T})"
  proof (rule inj_onI)
    fix v w
    assume v: "v \<in> set (minutes cfg start) \<times> {1..int ?D} \<times> {1..int ?T}"
      and w: "w \<in> set (minutes cfg start) \<times> {1..int ?D} \<times> {1..int ?T}"
      and "(case v of (now, d, t) \<Rightarrow> insert_message now d t) = (case w of (now, d, t) \<Rightarrow> insert_message now d t)"
    moreover obtain x d t y e r where vw: "v = (x, d, t)" "w = (y, e, r)" by (cases v; cases w)
    ultimately have eq: "insert_message x d t = insert_message y e r" by simp
    have x: "x \<in> set (minutes cfg start)" and y: "y \<in> set (minutes cfg start)"
      and d: "d \<in> {1..int ?D}" "e \<in> {1..int ?D}" and t: "t \<in> {1..int ?T}" "r \<in> {1..int ?T}"
      using v w vw by simp_all
    from eq have "(ucast x :: u32) = ucast y" "(word_of_int d :: u32) = word_of_int e"
      "(word_of_int t :: u32) = word_of_int r"
      by (simp_all add: insert_message_def Message_def)
    moreover have b: "1 \<le> i \<and> i < 2 ^ 32" if "i \<in> {1..int n}" "n < 2 ^ 31" for i n
      using that by auto
    moreover note b [OF d(1) D] b [OF d(2) D] b [OF t(1) T] b [OF t(2) T]
    ultimately show "v = w" unfolding vw
      using mins [OF x y] word_of_int_inj [of d e] word_of_int_inj [of t r] by simp
  qed
  ultimately show ?thesis
    by (simp add: all_messages_def distinct_map distinct_product)
qed

section \<open>The bound on the queue\<close>

lemma fits_pushes:
  "q + length xs \<le> b \<Longrightarrow> fits b (q + length xs) acts \<Longrightarrow> fits b q (map (\<lambda>x. Push (f x)) xs @ acts)"
  by (induction xs arbitrary: q) auto

lemma fits_devices:
  assumes "q \<le> unat w" and "unat w + unat (DBTables cfg) \<le> b"
    and "\<And>q'. q' \<le> unat w \<Longrightarrow> fits b q' acts"
  shows "fits b q (concat (map (\<lambda>d. device_acts cfg now d @ [WaitSize w]) ds) @ acts)"
  using assms(1)
proof (induction ds arbitrary: q)
  case Nil
  then show ?case using assms(3) by simp
next
  case (Cons d ds)
  have "fits b (min (q + unat (DBTables cfg)) (unat w)) (concat (map (\<lambda>d. device_acts cfg now d @ [WaitSize w]) ds) @ acts)"
    by (rule Cons.IH) simp
  then show ?case
    using Cons.prems assms(2) by (auto simp: device_acts_def intro!: fits_pushes)
qed

definition prep_bound :: "config \<Rightarrow> nat" where
  "prep_bound cfg = unat (LoaderThreads cfg * 2) + unat (DBTables cfg)"

lemma fits_minutes: "fits (prep_bound cfg) 0 (concat (map (minute_acts cfg) ms))"
proof (induction ms)
  case (Cons now ms)
  then have "fits (prep_bound cfg) 0 (concat (map (\<lambda>d. device_acts cfg now d @ [WaitSize (LoaderThreads cfg * 2)])
      [1..int (unat (MaxDevices cfg))]) @ WaitEmpty # concat (map (minute_acts cfg) ms))"
    by (intro fits_devices) (simp_all add: prep_bound_def)
  then show ?case by (simp add: minute_acts_def [of cfg now])
qed (simp add: prep_bound_def)

section \<open>Properties of the prepare mode\<close>

text \<open>The driver created the schema and reported a range.\<close>

definition ready :: "config \<Rightarrow> 'db driver \<Rightarrow> 'db \<Rightarrow> 'db \<Rightarrow> ts_range \<Rightarrow> bool" where
  "ready cfg drv db db' r \<longleftrightarrow>
     drv_CreateSchema drv cfg db = Inr db' \<and> drv_getTimestampRange drv cfg db' 0 = Inr r"

lemma Prep_eq:
  assumes "small_config cfg" and "ready cfg drv db db' r"
    and "unat (max (ts_max r + 60) StartTimestamp) + 60 * unat (LoadMins cfg) < 2 ^ 64"
  shows "Prep cfg drv db = Some (Inr
    (\<lparr>insertProgress = LoadMins cfg * (MaxDevices cfg * DBTables cfg), progressLoad = False,
      trace = concat (map (minute_acts cfg) (minutes cfg (max (ts_max r + 60) StartTimestamp))),
      draws = 0, deleteTimestamp = 0\<rparr>, db', drv_Prep drv cfg))"
  using prep_loop_eq [OF assms(1,3), of Preparer] assms(2)
  by (simp add: Prep_def ready_def Preparer_def Let_def)

text \<open>C10: The prepare mode ends, and it pushes exactly one message for every minute of the window, device
  and table, minutes first, no message twice; the progress counter ends at the total it was compared
  with, and the load starts a minute after the newest existing timestamp.\<close>

theorem Prep_pushes_all:
  assumes "small_config cfg" and "ready cfg drv db db' r"
    and "unat (max (ts_max r + 60) StartTimestamp) + 60 * unat (LoadMins cfg) < 2 ^ 64"
  shows "\<exists>p. Prep cfg drv db = Some (Inr (p, db', drv_Prep drv cfg)) \<and>
    pushes (trace p) = all_messages cfg (max (ts_max r + 60) StartTimestamp) \<and>
    distinct (pushes (trace p)) \<and>
    length (pushes (trace p)) = unat (LoadMins cfg) * (unat (MaxDevices cfg) * unat (DBTables cfg)) \<and>
    insertProgress p = LoadMins cfg * MaxDevices cfg * DBTables cfg \<and> \<not> progressLoad p"
  using Prep_eq [OF assms] distinct_all_messages [OF assms(1)]
  by (auto simp: pushes_prep length_all_messages mult.assoc)

text \<open>A driver over nothing, for the witnesses: an empty database.\<close>

definition empty_driver :: "unit driver" where
  "empty_driver =
     \<lparr>drv_CreateSchema = \<lambda>cfg db. Inr db, drv_Prep = \<lambda>cfg. [InsertThread 0 [InsertMetric]],
      drv_Run = \<lambda>cfg. [InsertThread 0 [InsertMetric]],
      drv_getTimestampRange = \<lambda>cfg db t. Inr \<lparr>ts_min = StartTimestamp, ts_max = StartTimestamp\<rparr>\<rparr>"

definition two_minutes :: config where
  "two_minutes = default_config\<lparr>LoadMins := 2, MaxDevices := 3, DBTables := 2, LoaderThreads := 1\<rparr>"

lemma two_minutes_small: "small_config two_minutes"
  by (simp add: small_config_def two_minutes_def default_config_def)

lemma empty_driver_ready:
  "ready two_minutes empty_driver () () \<lparr>ts_min = StartTimestamp, ts_max = StartTimestamp\<rparr>"
  by (simp add: ready_def empty_driver_def)

lemma two_minutes_window:
  "unat (max (ts_max \<lparr>ts_min = StartTimestamp, ts_max = StartTimestamp\<rparr> + 60) StartTimestamp)
     + 60 * unat (LoadMins two_minutes) < 2 ^ 64"
  by (simp add: StartTimestamp_def two_minutes_def)

lemma Prep_pushes_all_witness:
  "\<exists>p. Prep two_minutes empty_driver () = Some (Inr (p, (), [InsertThread 0 [InsertMetric]])) \<and>
     length (pushes (trace p)) = 12 \<and> insertProgress p = 12"
  using Prep_pushes_all [OF two_minutes_small empty_driver_ready two_minutes_window]
  by (auto simp: two_minutes_def empty_driver_def)

text \<open>C11: While the prepare mode runs against any number of loaders, the queue never holds more than two
  messages per loader thread and one row of tables, whatever the interleaving.\<close>

theorem Prep_queue_bounded:
  assumes "small_config cfg" and "ready cfg drv db db' r"
    and "unat (max (ts_max r + 60) StartTimestamp) + 60 * unat (LoadMins cfg) < 2 ^ 64"
    and "Prep cfg drv db = Some (Inr (p, db', ths))" and "sys_reach head n (trace p) s"
  shows "length (data_queue (sq s)) \<le> unat (LoaderThreads cfg * 2) + unat (DBTables cfg)"
proof -
  have "trace p = concat (map (minute_acts cfg) (minutes cfg (max (ts_max r + 60) StartTimestamp)))"
    using Prep_eq [OF assms(1-3)] assms(4) by auto
  with fits_reach [OF assms(5)] fits_minutes [of cfg]
  have "fits (prep_bound cfg) (length (data_queue (sq s))) (todo s)" by simp
  then show ?thesis using fits_le by (simp add: prep_bound_def)
qed

lemma Prep_queue_bounded_witness:
  "\<exists>p. Prep two_minutes empty_driver () = Some (Inr (p, (), [InsertThread 0 [InsertMetric]])) \<and>
     length (data_queue (sq (system_init AtDone 1 (trace p)))) \<le> 4"
proof -
  obtain p where p: "Prep two_minutes empty_driver () = Some (Inr (p, (), [InsertThread 0 [InsertMetric]]))"
    using Prep_eq [OF two_minutes_small empty_driver_ready two_minutes_window]
    by (auto simp: empty_driver_def)
  from Prep_queue_bounded [OF two_minutes_small empty_driver_ready two_minutes_window p sys_start, of AtDone 1]
  show ?thesis using p by (auto simp: two_minutes_def)
qed

section \<open>The run mode\<close>

text \<open>The number of devices of minute \<open>k\<close>, and the actions of that minute.\<close>

definition devices :: "config \<Rightarrow> pareto \<Rightarrow> (nat \<Rightarrow> real) \<Rightarrow> nat \<Rightarrow> nat" where
  "devices cfg pg u k = unat (word_of_int (GetNext_int pg (sint (MaxDevices cfg)) 0 (u k)) :: u32)"

definition run_acts :: "config \<Rightarrow> u64 \<Rightarrow> nat \<Rightarrow> action list" where
  "run_acts cfg now n =
     concat (map (device_acts cfg now) [1..int n]) @ [WaitSize (LoaderThreads cfg * 100000)]"

text \<open>The generator's contract gives between one and \<open>MaxDevices\<close> devices.\<close>

lemma devices_range:
  assumes "small_config cfg" and "0 < unat (MaxDevices cfg)" and "0 \<le> u k" and "u k < 1"
  shows "1 \<le> devices cfg main_pareto u k \<and> devices cfg main_pareto u k \<le> unat (MaxDevices cfg)"
proof -
  let ?D = "unat (MaxDevices cfg)"
  let ?g = "GetNext_int main_pareto (sint (MaxDevices cfg)) 0 (u k)"
  have D: "?D < 2147483647" "sint (MaxDevices cfg) = int ?D"
    using assms(1) sint_small by (simp_all only: small_config_def)
  have "0 < int ?D" using assms(2) by (simp only: of_nat_0_less_iff)
  from pg.gen_count [OF this assms(3,4)] have g: "1 \<le> ?g" "?g \<le> int ?D" unfolding D(2) by simp_all
  have "?g < 4294967296" using g D(1) by linarith
  then have "devices cfg main_pareto u k = nat ?g"
    using g(1) by (simp add: devices_def unat_word_of_int_small)
  with g show ?thesis by linarith
qed

lemma run_minute_eq:
  assumes "small_config cfg" and "devices cfg pg u (draws p) < 2147483647"
  shows "run_minute cfg pg u now p = Inr (p\<lparr>draws := draws p + 1, deleteTimestamp := deleteTimestamp p + 60,
    trace := trace p @ run_acts cfg now (devices cfg pg u (draws p)), insertProgress := ucast now\<rparr>)"
proof -
  let ?f = "\<lambda>d (p :: preparer). rbind (push_tables cfg now d (trace p)) (\<lambda>tr. Inr (p\<lparr>trace := tr\<rparr>))"
  let ?n = "devices cfg pg u (draws p)"
  have f: "?f d p = Inr (p\<lparr>insertProgress := insertProgress p + 0, trace := trace p @ device_acts cfg now d\<rparr>)" for d p
    using assms(1) by (simp add: push_tables_eq small_config_def)
  have "int_loop 1 ?n ?f q = Inr (q\<lparr>trace := trace q @ concat (map (device_acts cfg now) [1..int ?n])\<rparr>)" for q
    unfolding int_loop_eq_rfold [OF assms(2)]
    using rfold_append_acts [of "[1..int ?n]" ?f, OF f] by simp
  then show ?thesis
    by (simp add: run_minute_def Let_def devices_def [symmetric] run_acts_def)
qed

definition run_start :: "ts_range \<Rightarrow> preparer" where
  "run_start r = Preparer\<lparr>insertProgress := ucast (ts_max r + 60), deleteTimestamp := ts_min r\<rparr>"

lemma run_minutes_eq:
  assumes "small_config cfg" and "\<And>k. k < n \<Longrightarrow> devices cfg pg u k < 2147483647"
  shows "rfold (run_minute cfg pg u) (map (\<lambda>k. s + of_nat (60 * k)) [0..<n]) (run_start r) = Inr
    \<lparr>insertProgress = (if n = 0 then ucast (ts_max r + 60) else ucast (s + of_nat (60 * (n - 1)))), progressLoad = True,
      trace = concat (map (\<lambda>k. run_acts cfg (s + of_nat (60 * k)) (devices cfg pg u k)) [0..<n]),
      draws = n, deleteTimestamp = ts_min r + 60 * of_nat n\<rparr>"
  using assms(2)
proof (induction n)
  case 0
  show ?case by (simp add: run_start_def Preparer_def)
next
  case (Suc n)
  then show ?case
    using run_minute_eq [OF assms(1), of pg u] by (simp add: rfold_append algebra_simps)
qed

definition run_messages :: "config \<Rightarrow> pareto \<Rightarrow> (nat \<Rightarrow> real) \<Rightarrow> u64 \<Rightarrow> message list" where
  "run_messages cfg pg u start =
     concat (map (\<lambda>k. map (\<lambda>(d, t). insert_message (start + of_nat (60 * k)) d t)
                        (List.product [1..int (devices cfg pg u k)] [1..int (unat (DBTables cfg))]))
              [0..<unat (LoadMins cfg)])"

lemma pushes_run_acts:
  "pushes (run_acts cfg now n) =
     map (\<lambda>(d, t). insert_message now d t) (List.product [1..int n] [1..int (unat (DBTables cfg))])"
  by (simp add: run_acts_def device_acts_def pushes_concat map_product comp_def)

lemma Run_eq:
  assumes small: "small_config cfg" and dev: "\<And>k. devices cfg pg u k < 2147483647"
    and r: "drv_getTimestampRange drv cfg db 0 = Inr r"
    and top: "unat (ts_max r) + 60 * (unat (LoadMins cfg) + 1) < 2 ^ 64"
  shows "\<exists>p. Run cfg drv pg u db = Some (Inr (p, drv_Run drv cfg)) \<and> \<not> progressLoad p \<and>
    trace p = concat (map (\<lambda>k. run_acts cfg (ts_max r + 60 + of_nat (60 * k)) (devices cfg pg u k)) [0..<unat (LoadMins cfg)]) \<and>
    draws p = unat (LoadMins cfg) \<and> deleteTimestamp p = ts_min r + 60 * ucast (LoadMins cfg)"
proof -
  let ?m = "unat (LoadMins cfg)" and ?stop = "ts_max r + ucast (LoadMins cfg * 60)"
  have stop: "unat ?stop = unat (ts_max r) + 60 * ?m"
    unfolding load_seconds_64 [OF small] using top by (intro unat_plus_nat) simp
  have now: "unat (ts_max r + 60 + of_nat (60 * k)) = unat (ts_max r) + 60 * (k + 1)" if "k \<le> ?m" for k
  proof -
    have "ts_max r + 60 + of_nat (60 * k) = ts_max r + of_nat (60 * (k + 1))" by (simp add: algebra_simps)
    also have "unat \<dots> = unat (ts_max r) + 60 * (k + 1)" using top that by (intro unat_plus_nat) simp
    finally show ?thesis .
  qed
  have "time_loop (\<lambda>now. now \<le> ?stop) (run_minute cfg pg u) (ts_max r + 60) (run_start r)
      = Some (rfold (run_minute cfg pg u) (map (\<lambda>k. ts_max r + 60 + of_nat (60 * k)) [0..<?m]) (run_start r))"
  proof (rule time_loop_eq)
    fix k
    assume "k < ?m"
    then show "ts_max r + 60 + of_nat (60 * k) \<le> ?stop"
      unfolding word_le_nat_alt stop by (subst now) simp_all
  next
    show "\<not> ts_max r + 60 + of_nat (60 * ?m) \<le> ?stop"
      unfolding word_le_nat_alt stop by (subst now) simp_all
  qed
  then show ?thesis
    using r unfolding run_minutes_eq [OF small dev]
    by (simp add: Run_def Let_def run_start_def)
qed

lemma run_facts:
  assumes "small_config cfg" and "0 < unat (MaxDevices cfg)" and "\<forall>k. 0 \<le> u k \<and> u k < 1"
    and "drv_getTimestampRange drv cfg db 0 = Inr r"
    and "unat (ts_max r) + 60 * (unat (LoadMins cfg) + 1) < 2 ^ 64"
  shows "\<exists>p. Run cfg drv main_pareto u db = Some (Inr (p, drv_Run drv cfg)) \<and>
    pushes (trace p) = run_messages cfg main_pareto u (ts_max r + 60) \<and>
    (\<forall>k. 1 \<le> devices cfg main_pareto u k \<and> devices cfg main_pareto u k \<le> unat (MaxDevices cfg)) \<and>
    draws p = unat (LoadMins cfg) \<and> deleteTimestamp p = ts_min r + 60 * ucast (LoadMins cfg) \<and>
    list_all (\<lambda>m. op m = Insert) (pushes (trace p))"
proof -
  have dev: "1 \<le> devices cfg main_pareto u k \<and> devices cfg main_pareto u k \<le> unat (MaxDevices cfg)" for k
    using devices_range [OF assms(1,2), of u k] assms(3) by simp
  then have "devices cfg main_pareto u k < 2147483647" for k
    using assms(1) le_less_trans unfolding small_config_def by blast
  from Run_eq [OF assms(1) this assms(4,5)] obtain p
    where p: "Run cfg drv main_pareto u db = Some (Inr (p, drv_Run drv cfg))"
      "trace p = concat (map (\<lambda>k. run_acts cfg (ts_max r + 60 + of_nat (60 * k)) (devices cfg main_pareto u k)) [0..<unat (LoadMins cfg)])"
      "draws p = unat (LoadMins cfg)" "deleteTimestamp p = ts_min r + 60 * ucast (LoadMins cfg)" by blast
  have "pushes (trace p) = run_messages cfg main_pareto u (ts_max r + 60)"
    unfolding p(2) by (simp add: pushes_concat comp_def pushes_run_acts run_messages_def)
  moreover have "list_all (\<lambda>m. op m = Insert) (run_messages cfg main_pareto u s)" for s
    by (auto simp: run_messages_def list_all_iff insert_message_def)
  ultimately show ?thesis using p dev by simp
qed

text \<open>C13: The run mode ends after one round for each minute of the window: it draws a number of devices
  between 1 and \<open>MaxDevices\<close> for it and pushes one message per device and table with the timestamp of
  that minute, beginning one minute after the newest existing timestamp; the trailing delete
  timestamp advances by one minute a round, although nothing is ever deleted.\<close>

theorem Run_pushes:
  assumes "small_config cfg" and "0 < unat (MaxDevices cfg)" and "\<forall>k. 0 \<le> u k \<and> u k < 1"
    and "drv_getTimestampRange drv cfg db 0 = Inr r"
    and "unat (ts_max r) + 60 * (unat (LoadMins cfg) + 1) < 2 ^ 64"
  shows "\<exists>p. Run cfg drv main_pareto u db = Some (Inr (p, drv_Run drv cfg)) \<and>
    pushes (trace p) = run_messages cfg main_pareto u (ts_max r + 60) \<and>
    (\<forall>k. 1 \<le> devices cfg main_pareto u k \<and> devices cfg main_pareto u k \<le> unat (MaxDevices cfg)) \<and>
    draws p = unat (LoadMins cfg) \<and> deleteTimestamp p = ts_min r + 60 * ucast (LoadMins cfg) \<and>
    list_all (\<lambda>m. op m = Insert) (pushes (trace p))"
  by (rule run_facts [OF assms])

lemma Run_pushes_witness:
  "\<exists>p. Run two_minutes empty_driver main_pareto (\<lambda>k. 1 / 2) () = Some (Inr (p, [InsertThread 0 [InsertMetric]])) \<and>
     draws p = 2"
proof -
  have "drv_getTimestampRange empty_driver two_minutes () 0
      = Inr \<lparr>ts_min = StartTimestamp, ts_max = StartTimestamp\<rparr>"
    by (simp add: empty_driver_def)
  from Run_pushes [OF two_minutes_small _ _ this, of "\<lambda>k. 1 / 2"] show ?thesis
    by (auto simp: StartTimestamp_def two_minutes_def empty_driver_def)
qed

end
