(* ===== verification/Progress.thy ===== *)
theory Progress
  imports PreparerFacts
begin

text \<open>
  What the progress line of \<open>Preparer::prepProgressPrint\<close> shows while the two modes run.
\<close>

section \<open>The prepare mode\<close>

text \<open>The reporter of \<open>Prep\<close> starts from 0 and compares with a product in \<open>unsigned int\<close>.\<close>

definition prep_total :: "config \<Rightarrow> u32" where
  "prep_total cfg = LoadMins cfg * MaxDevices cfg * DBTables cfg"

definition prep_line :: "config \<Rightarrow> int \<Rightarrow> preparer \<Rightarrow> progress_line" where
  "prep_line cfg sec p = prepProgressPrint 0 (ucast (prep_total cfg)) sec p"

lemma unat_ucast_32_64: "unat (ucast (x :: u32) :: u64) = unat x"
proof -
  have "unat x < 2 ^ 32" using unsigned_less [of x, where ?'a = nat] by simp
  then have "unat x < 2 ^ 64" by simp
  then show ?thesis by (simp add: unsigned_ucast_eq take_bit_nat_eq_self)
qed

lemma unat_of_nat_32: "n < 2 ^ 32 \<Longrightarrow> unat (of_nat n :: u32) = n"
  by (simp add: unat_of_nat take_bit_nat_eq_self)

lemma prep_line_percent:
  assumes "prep_total cfg \<noteq> 0"
  shows "pl_percent (prep_line cfg sec p) = Some (real (unat (insertProgress p)) * 100 / real (unat (prep_total cfg)))"
proof -
  have "(ucast (prep_total cfg) :: u64) \<noteq> 0" using assms by (metis unat_eq_0 unat_ucast_32_64)
  then show ?thesis by (simp add: prep_line_def prepProgressPrint_def Let_def unat_ucast_32_64 del: of_nat_unat)
qed

text \<open>The preparer after \<open>m\<close> minutes and \<open>d\<close> devices of the next.\<close>

definition prep_after :: "config \<Rightarrow> u64 \<Rightarrow> nat \<Rightarrow> nat \<Rightarrow> preparer res" where
  "prep_after cfg start m d =
     rbind (rfold (prep_minute cfg) (map (\<lambda>k. start + of_nat (60 * k)) [0..<m]) Preparer)
       (rfold (prep_device cfg (start + of_nat (60 * m))) [1..int d])"

lemma prep_after_progress:
  assumes "small_config cfg"
  shows "\<exists>p. prep_after cfg start m d = Inr p \<and>
    insertProgress p = of_nat (m * unat (MaxDevices cfg) + d) * DBTables cfg"
  unfolding prep_after_def rfold_append_acts [of _ "prep_minute cfg", OF prep_minute_eq [OF assms]] rbind_Inr
    rfold_append_acts [of _ "prep_device cfg now" for now, OF prep_device_eq [OF assms]]
  by (simp add: Preparer_def algebra_simps)

lemma prep_progress_exact:
  assumes "unat (LoadMins cfg) * unat (MaxDevices cfg) * unat (DBTables cfg) < 2 ^ 32"
    and "j \<le> unat (LoadMins cfg) * unat (MaxDevices cfg)"
  shows "unat (of_nat j * DBTables cfg) = j * unat (DBTables cfg)"
    and "unat (prep_total cfg) = unat (LoadMins cfg) * unat (MaxDevices cfg) * unat (DBTables cfg)"
proof -
  have "j * unat (DBTables cfg) \<le> unat (LoadMins cfg) * unat (MaxDevices cfg) * unat (DBTables cfg)"
    using assms(2) by (rule mult_le_mono1)
  then have "j * unat (DBTables cfg) < 2 ^ 32" using assms(1) by (rule le_less_trans)
  then have "unat (of_nat (j * unat (DBTables cfg)) :: u32) = j * unat (DBTables cfg)"
    by (intro unat_of_nat_32) simp
  then show "unat (of_nat j * DBTables cfg) = j * unat (DBTables cfg)" by simp
  have "unat (of_nat (unat (LoadMins cfg) * unat (MaxDevices cfg) * unat (DBTables cfg)) :: u32)
      = unat (LoadMins cfg) * unat (MaxDevices cfg) * unat (DBTables cfg)"
    using assms(1) by (intro unat_of_nat_32) simp
  then show "unat (prep_total cfg) = unat (LoadMins cfg) * unat (MaxDevices cfg) * unat (DBTables cfg)"
    by (simp add: prep_total_def)
qed

section \<open>The run mode\<close>

text \<open>
  The reporter of \<open>Run\<close> starts from the first timestamp and compares with the seconds of the load;
  \<open>run_after\<close> is the preparer after \<open>n\<close> rounds of the time loop.
\<close>

definition run_line :: "config \<Rightarrow> u64 \<Rightarrow> int \<Rightarrow> preparer \<Rightarrow> progress_line" where
  "run_line cfg start sec p = prepProgressPrint start (ucast (LoadMins cfg * 60)) sec p"

definition run_after :: "config \<Rightarrow> pareto \<Rightarrow> (nat \<Rightarrow> real) \<Rightarrow> ts_range \<Rightarrow> nat \<Rightarrow> preparer res" where
  "run_after cfg pg u r n =
     rfold (run_minute cfg pg u) (map (\<lambda>k. ts_max r + 60 + of_nat (60 * k)) [0..<n]) (run_start r)"

lemma run_after_progress:
  assumes "small_config cfg" and "\<And>k. devices cfg pg u k < 2147483647"
    and "unat (ts_max r) + 60 * (unat (LoadMins cfg) + 1) < 2 ^ 32" and "n \<le> unat (LoadMins cfg)"
  shows "\<exists>p. run_after cfg pg u r n = Inr p \<and> ucast (insertProgress p) - (ts_max r + 60) = (of_nat (60 * (n - 1)) :: u64)"
proof -
  let ?s = "ts_max r + 60"
  obtain p where p: "run_after cfg pg u r n = Inr p"
    "insertProgress p = (if n = 0 then ucast ?s else ucast (?s + of_nat (60 * (n - 1))))"
    using run_minutes_eq [OF assms(1), of n pg u ?s r] assms(2) by (simp add: run_after_def)
  have low: "(ucast (ucast x :: u32) :: u64) = x" if "unat x < 2 ^ 32" for x :: u64
  proof -
    have "unat (ucast (ucast x :: u32) :: u64) = unat (ucast x :: u32)" by (rule unat_ucast_32_64)
    also have "\<dots> = unat x" using that by (simp only: unsigned_ucast_eq) (simp add: take_bit_nat_eq_self)
    finally have "unat (ucast (ucast x :: u32) :: u64) = unat x" .
    then show ?thesis by (simp add: word_unat_eq_iff)
  qed
  have "unat (ts_max r + of_nat (60 * (n - 1) + 60)) = unat (ts_max r) + (60 * (n - 1) + 60)"
    using assms(3,4) by (intro unat_plus_nat) (cases n; simp)
  moreover have "ts_max r + of_nat (60 * (n - 1) + 60) = ?s + of_nat (60 * (n - 1))" by (simp add: algebra_simps)
  ultimately have "unat (?s + of_nat (60 * (n - 1))) = unat (ts_max r) + (60 * (n - 1) + 60)" by (simp only:)
  moreover have "60 * (n - 1) + 60 \<le> 60 * (unat (LoadMins cfg) + 1)" using assms(4) by (cases n) simp_all
  ultimately have "unat (?s + of_nat (60 * (n - 1))) < 2 ^ 32" using assms(3) by linarith
  from low [OF this] have "ucast (insertProgress p) = ?s + of_nat (60 * (n - 1))"
    unfolding p(2) by (cases "n = 0") simp_all
  with p(1) show ?thesis by (intro exI [of _ p]) simp
qed

lemma run_line_percent:
  assumes "small_config cfg" and "0 < unat (LoadMins cfg)"
    and "ucast (insertProgress p) - start = (of_nat (60 * k) :: u64)" and "k \<le> unat (LoadMins cfg)"
  shows "pl_percent (run_line cfg start sec p) = Some (100 * real k / real (unat (LoadMins cfg)))"
proof -
  have total: "unat (ucast (LoadMins cfg * 60) :: u64) = 60 * unat (LoadMins cfg)"
    unfolding unat_ucast_32_64 by (rule load_seconds [OF assms(1)])
  then have "(ucast (LoadMins cfg * 60) :: u64) \<noteq> 0" using assms(2) by (metis mult_pos_pos unat_0 less_irrefl zero_less_numeral)
  moreover have "60 * k < 2 ^ 64" using assms(1,4) by (simp add: small_config_def)
  then have "unat (of_nat (60 * k) :: u64) = 60 * k" by (simp add: unat_of_nat take_bit_nat_eq_self del: of_nat_mult)
  ultimately show ?thesis
    using assms(2)
    by (simp add: run_line_def prepProgressPrint_def Let_def assms(3) total del: of_nat_unat of_nat_mult)
qed

section \<open>Properties\<close>

text \<open>C15: The progress lines. In the prepare mode the line printed after \<open>m\<close> minutes and \<open>d\<close> devices of the
  next shows exactly their percentage of all devices in all minutes, 100 percent at the end, when
  the product of minutes, devices and tables fits 32 bits. In the run mode the line after \<open>n\<close> of all
  minutes shows the percentage of \<open>n - 1\<close>: the counter is set to the start of the minute, so the last
  line stays one minute short of 100 percent.\<close>

theorem progress_percentages:
  assumes "small_config cfg" and "unat (LoadMins cfg) * unat (MaxDevices cfg) * unat (DBTables cfg) < 2 ^ 32"
    and "0 < unat (LoadMins cfg) * unat (MaxDevices cfg) * unat (DBTables cfg)"
    and "m < unat (LoadMins cfg)" and "d \<le> unat (MaxDevices cfg)"
    and "\<forall>k. devices cfg pg u k < 2147483647"
    and "unat (ts_max r) + 60 * (unat (LoadMins cfg) + 1) < 2 ^ 32" and "n \<le> unat (LoadMins cfg)"
  shows "(\<exists>p. prep_after cfg start m d = Inr p \<and>
       pl_percent (prep_line cfg sec p) = Some (100 * real (m * unat (MaxDevices cfg) + d)
         / real (unat (LoadMins cfg) * unat (MaxDevices cfg)))) \<and>
    (\<exists>q. run_after cfg pg u r n = Inr q \<and>
       pl_percent (run_line cfg (ts_max r + 60) sec q) = Some (100 * real (n - 1) / real (unat (LoadMins cfg))) \<and>
       the (pl_percent (run_line cfg (ts_max r + 60) sec q)) < 100)"
proof
  let ?m = "unat (LoadMins cfg)" and ?j = "m * unat (MaxDevices cfg) + d"
  have "?j \<le> Suc m * unat (MaxDevices cfg)" using assms(5) by simp
  also have "\<dots> \<le> ?m * unat (MaxDevices cfg)" using assms(4) by (intro mult_le_mono1) simp
  finally have j: "?j \<le> ?m * unat (MaxDevices cfg)" .
  note exact = prep_progress_exact [OF assms(2) j]
  obtain p where p: "prep_after cfg start m d = Inr p" "insertProgress p = of_nat ?j * DBTables cfg"
    using prep_after_progress [OF assms(1)] by blast
  have "prep_total cfg \<noteq> 0" using exact(2) assms(3) by (metis unat_0 less_irrefl)
  from prep_line_percent [OF this, of sec p] assms(3)
  have "pl_percent (prep_line cfg sec p) = Some (100 * real ?j / real (?m * unat (MaxDevices cfg)))"
    unfolding p(2) exact by (simp del: of_nat_unat of_nat_add)
  with p(1) show "\<exists>p. prep_after cfg start m d = Inr p \<and>
      pl_percent (prep_line cfg sec p) = Some (100 * real ?j / real (?m * unat (MaxDevices cfg)))" by blast
  have m: "0 < ?m" using assms(3) by simp
  obtain q where q: "run_after cfg pg u r n = Inr q"
    "ucast (insertProgress q) - (ts_max r + 60) = (of_nat (60 * (n - 1)) :: u64)"
    using run_after_progress [OF assms(1) _ assms(7,8), of pg u] assms(6) by blast
  have line: "pl_percent (run_line cfg (ts_max r + 60) sec q) = Some (100 * real (n - 1) / real ?m)"
    using assms(8) by (intro run_line_percent [OF assms(1) m q(2)]) simp
  have "n - 1 < ?m" using m assms(8) by linarith
  then have "real (n - 1) < real ?m" by (simp only: of_nat_less_iff)
  then have "100 * real (n - 1) / real ?m < 100" using m by (simp add: divide_less_eq del: of_nat_unat)
  with q(1) line show "\<exists>q. run_after cfg pg u r n = Inr q \<and>
      pl_percent (run_line cfg (ts_max r + 60) sec q) = Some (100 * real (n - 1) / real ?m) \<and>
      the (pl_percent (run_line cfg (ts_max r + 60) sec q)) < 100" by auto
qed

lemma progress_percentages_witness:
  "\<exists>p q. prep_after two_minutes StartTimestamp 1 3 = Inr p \<and> pl_percent (prep_line two_minutes 10 p) = Some 100 \<and>
    run_after two_minutes main_pareto (\<lambda>k. 1 / 2) \<lparr>ts_min = StartTimestamp, ts_max = StartTimestamp\<rparr> 2 = Inr q \<and>
    pl_percent (run_line two_minutes (StartTimestamp + 60) 10 q) = Some 50"
proof -
  have n: "unat (LoadMins two_minutes) = 2" "unat (MaxDevices two_minutes) = 3" "unat (DBTables two_minutes) = 2"
    by (simp_all add: two_minutes_def)
  have dev: "\<forall>k. devices two_minutes main_pareto (\<lambda>k. 1 / 2) k < 2147483647"
  proof
    fix k
    have "devices two_minutes main_pareto (\<lambda>k. 1 / 2) k \<le> 3"
      using devices_range [OF two_minutes_small, of "\<lambda>k. 1 / 2" k] n by simp
    then show "devices two_minutes main_pareto (\<lambda>k. 1 / 2) k < 2147483647" by simp
  qed
  have top: "unat (ts_max \<lparr>ts_min = StartTimestamp, ts_max = StartTimestamp\<rparr>) + 60 * (unat (LoadMins two_minutes) + 1) < 2 ^ 32"
    unfolding n by (simp add: StartTimestamp_def)
  from progress_percentages [OF two_minutes_small _ _ _ _ dev top, of 1 3 2 StartTimestamp 10] show ?thesis
    unfolding n by auto
qed

end
