(* ===== verification/SystemFacts.thy ===== *)
theory SystemFacts
  imports PreparerFacts
begin

text \<open>
  The preparer against the loaders: the bound on the queue in the run mode, what the \<open>wait_empty\<close> at
  the end of every minute of the prepare mode guarantees, and that the work can always be finished.
\<close>

section \<open>The queue in the run mode\<close>

lemma device_acts_product:
  "concat (map (device_acts cfg now) ds) =
     map (\<lambda>x. Push (insert_message now (fst x) (snd x))) (List.product ds [1..int (unat (DBTables cfg))])"
  by (induction ds) (simp_all add: device_acts_def)

lemma fits_run_acts:
  assumes "q \<le> unat (LoaderThreads cfg * 100000)" and "n * unat (DBTables cfg) \<le> k"
    and "\<And>q'. q' \<le> unat (LoaderThreads cfg * 100000) \<Longrightarrow> fits (unat (LoaderThreads cfg * 100000) + k) q' acts"
  shows "fits (unat (LoaderThreads cfg * 100000) + k) q (run_acts cfg now n @ acts)"
proof -
  let ?w = "unat (LoaderThreads cfg * 100000)"
  let ?xs = "List.product [1..int n] [1..int (unat (DBTables cfg))]"
  have len: "q + length ?xs \<le> ?w + k" using assms(1,2) by simp
  moreover have "fits (?w + k) (q + length ?xs) (WaitSize (LoaderThreads cfg * 100000) # acts)"
    using len assms(3) [of "min (q + length ?xs) ?w"] by simp
  ultimately show ?thesis
    unfolding run_acts_def device_acts_product append_assoc append_Cons append_Nil by (rule fits_pushes)
qed

lemma fits_run:
  assumes "\<And>k. k \<in> set ks \<Longrightarrow> n k * unat (DBTables cfg) \<le> b" and "q \<le> unat (LoaderThreads cfg * 100000)"
  shows "fits (unat (LoaderThreads cfg * 100000) + b) q (concat (map (\<lambda>k. run_acts cfg (now k) (n k)) ks))"
  using assms
proof (induction ks arbitrary: q)
  case (Cons k ks)
  then show ?case by (simp add: fits_run_acts)
qed simp

lemma run_queue_le:
  assumes "small_config cfg" and "0 < unat (MaxDevices cfg)" and "\<forall>k. 0 \<le> u k \<and> u k < 1"
    and "drv_getTimestampRange drv cfg db 0 = Inr r"
    and "unat (ts_max r) + 60 * (unat (LoadMins cfg) + 1) < 2 ^ 64"
    and "Run cfg drv main_pareto u db = Some (Inr (p, ths))" and "sys_reach head n (trace p) s"
  shows "length (data_queue (sq s))
    \<le> unat (LoaderThreads cfg * 100000) + unat (MaxDevices cfg) * unat (DBTables cfg)"
proof -
  let ?b = "unat (MaxDevices cfg) * unat (DBTables cfg)"
  have dev: "devices cfg main_pareto u k \<le> unat (MaxDevices cfg)" for k
    using devices_range [OF assms(1,2), of u k] assms(3) by simp
  then have "devices cfg main_pareto u k < 2147483647" for k
    using assms(1) le_less_trans unfolding small_config_def by blast
  from Run_eq [OF assms(1) this assms(4,5)] assms(6) have
    "trace p = concat (map (\<lambda>k. run_acts cfg (ts_max r + 60 + of_nat (60 * k)) (devices cfg main_pareto u k))
       [0..<unat (LoadMins cfg)])" by auto
  moreover have "devices cfg main_pareto u k * unat (DBTables cfg) \<le> ?b" for k
    using dev [of k] by (rule mult_le_mono1)
  ultimately have "fits (unat (LoaderThreads cfg * 100000) + ?b) 0 (trace p)"
    using fits_run [of "[0..<unat (LoadMins cfg)]" "devices cfg main_pareto u" cfg ?b 0] by simp
  from fits_le [OF fits_reach [OF assms(7) this]] show ?thesis .
qed

text \<open>C14: While the run mode executes against any number of loaders, the queue never holds more than the
  100000 messages per loader thread that it waits for and one minute of messages for all devices and
  tables, in every interleaving.\<close>

theorem Run_queue_bounded:
  assumes "small_config cfg" and "0 < unat (MaxDevices cfg)" and "\<forall>k. 0 \<le> u k \<and> u k < 1"
    and "drv_getTimestampRange drv cfg db 0 = Inr r"
    and "unat (ts_max r) + 60 * (unat (LoadMins cfg) + 1) < 2 ^ 64"
    and "Run cfg drv main_pareto u db = Some (Inr (p, ths))" and "sys_reach head n (trace p) s"
  shows "length (data_queue (sq s))
    \<le> unat (LoaderThreads cfg * 100000) + unat (MaxDevices cfg) * unat (DBTables cfg)"
  by (rule run_queue_le [OF assms])

lemma Run_queue_bounded_witness:
  "\<exists>p ths. Run two_minutes empty_driver main_pareto (\<lambda>k. 1 / 2) () = Some (Inr (p, ths)) \<and>
     length (data_queue (sq (system_init AtDone 1 (trace p)))) \<le> 100006"
proof -
  have r: "drv_getTimestampRange empty_driver two_minutes () 0
      = Inr \<lparr>ts_min = StartTimestamp, ts_max = StartTimestamp\<rparr>"
    by (simp add: empty_driver_def)
  have d: "0 < unat (MaxDevices two_minutes)" by (simp add: two_minutes_def)
  have u: "\<forall>k::nat. 0 \<le> (1 / 2 :: real) \<and> 1 / 2 < (1 :: real)" by simp
  have top: "unat (ts_max \<lparr>ts_min = StartTimestamp, ts_max = StartTimestamp\<rparr>) + 60 * (unat (LoadMins two_minutes) + 1) < 2 ^ 64"
    by (simp add: StartTimestamp_def two_minutes_def)
  have dev: "devices two_minutes main_pareto (\<lambda>k. 1 / 2) k < 2147483647" for k
    using devices_range [OF two_minutes_small d, of "\<lambda>k. 1 / 2" k] by (simp add: two_minutes_def)
  from Run_eq [OF two_minutes_small dev r top] obtain p
    where p: "Run two_minutes empty_driver main_pareto (\<lambda>k. 1 / 2) () = Some (Inr (p, drv_Run empty_driver two_minutes))"
    by blast
  from Run_queue_bounded [OF two_minutes_small d u r top p sys_start, of AtDone 1]
  show ?thesis using p by (auto simp: two_minutes_def)
qed

section \<open>One minute at a time\<close>

text \<open>
  \<open>one_minute cur acts\<close>: the actions push messages of one timestamp between two \<open>WaitEmpty\<close>, and \<open>cur\<close>
  is the timestamp of what may already be queued.
\<close>

fun one_minute :: "u32 option \<Rightarrow> action list \<Rightarrow> bool" where
  "one_minute cur [] \<longleftrightarrow> True"
| "one_minute cur (Push m # acts) \<longleftrightarrow> (cur = None \<or> cur = Some (ts m)) \<and> one_minute (Some (ts m)) acts"
| "one_minute cur (WaitSize n # acts) \<longleftrightarrow> one_minute cur acts"
| "one_minute cur (WaitEmpty # acts) \<longleftrightarrow> one_minute None acts"

definition minute_inv :: "system \<Rightarrow> bool" where
  "minute_inv s \<longleftrightarrow> (\<exists>cur. one_minute cur (todo s) \<and> (\<forall>m \<in> set (data_queue (sq s)). cur = Some (ts m)))"

lemma minute_inv_step:
  assumes "sys_step head s s'" and "minute_inv s"
  shows "minute_inv s'"
proof -
  from assms(2) obtain cur where cur: "one_minute cur (todo s)" "\<forall>m \<in> set (data_queue (sq s)). cur = Some (ts m)"
    by (auto simp: minute_inv_def)
  from assms(1) show ?thesis
  proof (cases rule: sys_step_cases)
    case (do_push m acts)
    with cur show ?thesis by (auto simp: minute_inv_def)
  next
    case (do_wait a acts)
    show ?thesis
    proof (cases a)
      case (WaitSize k)
      with do_wait cur show ?thesis by (auto simp: minute_inv_def)
    next
      case WaitEmpty
      with do_wait cur show ?thesis by (auto simp: minute_inv_def)
    next
      case (Push m)
      with do_wait show ?thesis by simp
    qed
  qed (use cur in \<open>auto simp: minute_inv_def\<close>)
qed

lemma minute_inv_reach: "sys_reach head n acts s \<Longrightarrow> one_minute None acts \<Longrightarrow> minute_inv s"
proof (induction rule: sys_reach.induct)
  case sys_start
  then show ?case by (auto simp: minute_inv_def system_init_def tsqueue_new_def)
next
  case (sys_next s s')
  then show ?case by (blast intro: minute_inv_step)
qed

lemma one_minute_pushes:
  assumes "\<And>x. x \<in> set xs \<Longrightarrow> ts (f x) = tim" and "cur = None \<or> cur = Some tim"
    and "\<And>cur. cur = None \<or> cur = Some tim \<Longrightarrow> one_minute cur acts"
  shows "one_minute cur (map (\<lambda>x. Push (f x)) xs @ acts)"
  using assms by (induction xs arbitrary: cur) auto

lemma one_minute_devices:
  assumes "cur = None \<or> cur = Some (ucast now)" and "one_minute None acts"
  shows "one_minute cur (concat (map (\<lambda>d. device_acts cfg now d @ [WaitSize w]) ds) @ WaitEmpty # acts)"
  using assms(1)
proof (induction ds arbitrary: cur)
  case Nil
  with assms(2) show ?case by simp
next
  case (Cons d ds)
  show ?case
    unfolding list.map concat.simps append_assoc device_acts_def
  proof (rule one_minute_pushes [where tim = "ucast now"])
    fix cur :: "u32 option"
    assume "cur = None \<or> cur = Some (ucast now)"
    from Cons.IH [OF this]
    show "one_minute cur ([WaitSize w] @ concat (map (\<lambda>d. map (\<lambda>t. Push (insert_message now d t))
        [1..int (unat (DBTables cfg))] @ [WaitSize w]) ds) @ WaitEmpty # acts)"
      by (simp add: device_acts_def)
  qed (use Cons.prems in \<open>simp_all add: insert_message_def\<close>)
qed

lemma one_minute_prep: "one_minute None (concat (map (minute_acts cfg) ms))"
proof (induction ms)
  case (Cons now ms)
  then show ?case
    using one_minute_devices [of None now "concat (map (minute_acts cfg) ms)" cfg "LoaderThreads cfg * 2"
        "[1..int (unat (MaxDevices cfg))]"]
    by (simp add: minute_acts_def [of cfg now])
qed simp

text \<open>C12: The minutes of the prepare mode do not mix in the queue: in every interleaving with any number of
  loaders, all messages that are queued at the same time have the same timestamp, because the
  preparer waits for the empty queue before it goes on to the next minute.\<close>

theorem Prep_one_minute_queued:
  assumes "small_config cfg" and "ready cfg drv db db' r"
    and "unat (max (ts_max r + 60) StartTimestamp) + 60 * unat (LoadMins cfg) < 2 ^ 64"
    and "Prep cfg drv db = Some (Inr (p, db', ths))" and "sys_reach head n (trace p) s"
    and "m \<in> set (data_queue (sq s))" and "m' \<in> set (data_queue (sq s))"
  shows "ts m = ts m'"
proof -
  have "trace p = concat (map (minute_acts cfg) (minutes cfg (max (ts_max r + 60) StartTimestamp)))"
    using Prep_eq [OF assms(1-3)] assms(4) by auto
  with minute_inv_reach [OF assms(5)] one_minute_prep have "minute_inv s" by simp
  with assms(6,7) have "Some (ts m) = Some (ts m')" unfolding minute_inv_def by metis
  then show ?thesis by simp
qed

text \<open>The state after the first two pushes.\<close>

lemma two_pushes_reach:
  "\<exists>s. sys_reach AtDone n (Push a # Push b # acts) s \<and> data_queue (sq s) = [a, b]"
proof -
  obtain s where "run_schedule AtDone [None, None] (system_init AtDone n (Push a # Push b # acts)) = Some s"
    "data_queue (sq s) = [a, b]"
    by (simp add: schedule_simps)
  with run_schedule_reach [OF this(1) sys_start] show ?thesis by blast
qed

lemma two_minutes_trace: "\<exists>a b acts. concat (map (minute_acts two_minutes) (minutes two_minutes start)) = Push a # Push b # acts"
proof -
  have "[0..<2 :: nat] = [0, 1]" by (simp add: upt_rec)
  moreover have "[1..2 :: int] = [1, 2]" "[1..3 :: int] = [1, 2, 3]" by (simp_all add: upto.simps)
  ultimately show ?thesis by (simp add: minutes_def minute_acts_def device_acts_def two_minutes_def)
qed

lemma Prep_one_minute_queued_witness:
  "\<exists>p s m m'. Prep two_minutes empty_driver () = Some (Inr (p, (), [InsertThread 0 [InsertMetric]])) \<and>
     sys_reach AtDone 1 (trace p) s \<and> data_queue (sq s) = [m, m'] \<and> ts m = ts m'"
proof -
  let ?r = "\<lparr>ts_min = StartTimestamp, ts_max = StartTimestamp\<rparr>"
  obtain p where p: "Prep two_minutes empty_driver () = Some (Inr (p, (), [InsertThread 0 [InsertMetric]]))"
    "trace p = concat (map (minute_acts two_minutes) (minutes two_minutes (max (ts_max ?r + 60) StartTimestamp)))"
    using Prep_eq [OF two_minutes_small empty_driver_ready two_minutes_window]
    by (auto simp: empty_driver_def)
  obtain a b acts where "trace p = Push a # Push b # acts"
    using two_minutes_trace p(2) by metis
  with two_pushes_reach [of 1 a b acts] obtain s where s: "sys_reach AtDone 1 (trace p) s" "data_queue (sq s) = [a, b]"
    by auto
  from Prep_one_minute_queued [OF two_minutes_small empty_driver_ready two_minutes_window p(1) s(1), of a b] s(2)
  have "ts a = ts b" by simp
  with p(1) s show ?thesis by blast
qed

section \<open>The work can be finished\<close>

text \<open>Any number of steps.\<close>

abbreviation sys_steps :: "pc \<Rightarrow> system \<Rightarrow> system \<Rightarrow> bool" where
  "sys_steps head \<equiv> (sys_step head)\<^sup>*\<^sup>*"

lemma reach_steps: "sys_steps head s s' \<Longrightarrow> sys_reach head n acts s \<Longrightarrow> sys_reach head n acts s'"
  by (induction rule: rtranclp_induct) (auto intro: sys_next)

text \<open>While something is queued, a loader that has not left its loop can take it and handle it.\<close>

lemma step_goto:
  assumes "t < length (pcs s)" and "loader_step head t s = Some s'"
  shows "sys_steps head s s'"
  using by_loader [OF assms] by blast

lemma loader_to_pop:
  assumes t: "t < length (pcs s)" and q: "data_queue (sq s) \<noteq> []"
    and p: "pcs s ! t \<in> {AtDone, AtLoopEmpty, AtIf, AtPop}"
  shows "sys_steps head s (goto_pc s t AtPop)"
proof -
  have e: "\<not> is_empty (sq s)" using q by (simp add: is_empty_def)
  have same: "goto_pc (goto_pc s t a) t b = goto_pc s t b" for a b by (simp add: goto_pc_def)
  have at: "pcs (goto_pc s t a) ! t = a" "t < length (pcs (goto_pc s t a))" for a using t by simp_all
  have from_if: "sys_steps head (goto_pc s t AtIf) (goto_pc s t AtPop)"
    using step_goto [of t "goto_pc s t AtIf" head "goto_pc s t AtPop"] at e by (simp add: loader_step_def same)
  have from_loop: "sys_steps head (goto_pc s t AtLoopEmpty) (goto_pc s t AtPop)"
    using step_goto [of t "goto_pc s t AtLoopEmpty" head "goto_pc s t AtIf"] at e from_if
    by (simp add: loader_step_def same)
  have from_done: "sys_steps head (goto_pc s t AtDone) (goto_pc s t AtPop)"
    using step_goto [of t "goto_pc s t AtDone" head "goto_pc s t (if complete s then AtLoopEmpty else AtIf)"]
      at from_if from_loop
    by (cases "complete s") (simp_all add: loader_step_def same)
  have "goto_pc s t (pcs s ! t) = s" using t by (simp add: goto_pc_def)
  with p from_if from_loop from_done show ?thesis by (metis insertE rtranclp.rtrancl_refl singletonD)
qed

lemma loader_takes:
  fixes s :: system and q' :: "message tsqueue"
  assumes t: "t < length (pcs s)" and q: "data_queue (sq s) = m # data_queue q'"
    and p: "pcs s ! t \<in> {AtDone, AtLoopEmpty, AtIf, AtPop}"
  shows "\<exists>s'. sys_steps head s s' \<and> todo s' = todo s \<and> length (handled s') = Suc (length (handled s))"
proof -
  have "data_queue (sq s) \<noteq> []" using q by simp
  from loader_to_pop [OF t this p] have 1: "sys_steps head s (goto_pc s t AtPop)" .
  let ?s2 = "(goto_pc s t (Busy m))\<lparr>sq := q', popped := popped s @ [m]\<rparr>"
  have "loader_step head t (goto_pc s t AtPop) = Some ?s2"
    using t q by (simp add: loader_step_def wait_and_pop_Some [THEN iffD2, OF q] goto_pc_def)
  from step_goto [OF _ this] t have 2: "sys_steps head (goto_pc s t AtPop) ?s2" by simp
  let ?s3 = "(goto_pc ?s2 t head)\<lparr>handled := handled s @ [m]\<rparr>"
  have "loader_step head t ?s2 = Some ?s3"
    using t by (simp add: loader_step_def goto_pc_def)
  from step_goto [OF _ this] t have 3: "sys_steps head ?s2 ?s3" by simp
  from 1 2 3 have "sys_steps head s ?s3" by (metis rtranclp_trans)
  then show ?thesis by (intro exI [of _ ?s3]) simp
qed

text \<open>Whatever is not done yet becomes less.\<close>

lemma work_decreases:
  assumes inv: "sys_inv n acts s" and n: "0 < n" and head: "head_ok head"
    and todo: "\<not> (todo s = [] \<and> data_queue (sq s) = [] \<and> hands (pcs s) = {#})"
  shows "\<exists>s'. sys_steps head s s' \<and>
    (todo s' = todo s \<and> length (handled s') = Suc (length (handled s)) \<or>
     length (todo s') < length (todo s) \<and> handled s' = handled s)"
proof (cases "\<exists>t m. t < length (pcs s) \<and> pcs s ! t = Busy m")
  case True
  then obtain t m where t: "t < length (pcs s)" "pcs s ! t = Busy m" by blast
  then have "loader_step head t s = Some ((goto_pc s t head)\<lparr>handled := handled s @ [m]\<rparr>)"
    by (simp add: loader_step_def)
  from step_goto [OF t(1) this] show ?thesis by fastforce
next
  case False
  then have idle: "hand p = {#}" if "p \<in> set (pcs s)" for p
    using that by (cases p) (auto simp: in_set_conv_nth)
  then have hands: "hands (pcs s) = {#}" by (rule hands_idle)
  show ?thesis
  proof (cases "data_queue (sq s)")
    case (Cons m ms)
    have len: "0 < length (pcs s)" using inv n by (simp add: sys_inv_def)
    have "Exited \<notin> set (pcs s)" using inv Cons by (auto simp: sys_inv_def)
    with nth_mem [OF len] have "pcs s ! 0 \<noteq> Exited" by metis
    moreover have "pcs s ! 0 \<noteq> Busy x" for x using False len by blast
    ultimately have "pcs s ! 0 \<in> {AtDone, AtLoopEmpty, AtIf, AtPop}" by (cases "pcs s ! 0") auto
    from loader_takes [OF len _ this, of m "\<lparr>data_queue = ms\<rparr>"] Cons show ?thesis by auto
  next
    case Nil
    with todo hands have "todo s \<noteq> []" by simp
    then obtain a acts' where a: "todo s = a # acts'" by (cases "todo s") auto
    have "\<exists>s'. main_step s = Some s' \<and> todo s' = acts' \<and> handled s' = handled s"
      using a Nil by (cases a) (auto simp: main_step_def wait_size_ready_def wait_empty_ready_def)
    with a show ?thesis by (metis by_main length_Cons lessI r_into_rtranclp)
  qed
qed

lemma work_finishes:
  assumes "sys_inv n acts s" and "0 < n" and "head_ok head"
  shows "\<exists>s'. sys_steps head s s' \<and> sys_inv n acts s' \<and> todo s' = [] \<and> data_queue (sq s') = [] \<and> hands (pcs s') = {#}"
  using assms(1)
proof (induction "length (todo s) + (length (pushes acts) - length (handled s))" arbitrary: s rule: less_induct)
  case less
  show ?case
  proof (cases "todo s = [] \<and> data_queue (sq s) = [] \<and> hands (pcs s) = {#}")
    case True
    with less.prems show ?thesis by blast
  next
    case False
    from work_decreases [OF less.prems assms(2,3) False] obtain s1
      where s1: "sys_steps head s s1" "todo s1 = todo s \<and> length (handled s1) = Suc (length (handled s)) \<or>
        length (todo s1) < length (todo s) \<and> handled s1 = handled s" by blast
    have inv1: "sys_inv n acts s1" using s1(1) less.prems
      by (induction rule: rtranclp_induct) (auto intro: sys_inv_step assms(3))
    have "size (mset (handled s1)) \<le> length (pushes acts)"
    proof -
      have "size (mset (handled s1)) \<le> size (mset (popped s1))"
        using inv1 by (metis sys_inv_def size_union le_add1)
      also have "\<dots> \<le> length (pushed s1)" using inv1 by (auto simp: sys_inv_def dest!: arg_cong [of _ _ length])
      also have "\<dots> \<le> length (pushes acts)" using inv1 by (auto simp: sys_inv_def dest!: arg_cong [of _ _ length])
      finally show ?thesis .
    qed
    with s1(2) have "length (todo s1) + (length (pushes acts) - length (handled s1))
        < length (todo s) + (length (pushes acts) - length (handled s))" by auto
    from less.hyps [OF this inv1] s1(1) show ?thesis by (meson rtranclp_trans)
  qed
qed

text \<open>The load can always be finished. From every reachable state, whatever the loaders and the preparer
  have done so far, there are further steps after which the preparer has pushed everything, the queue
  is empty, and every message it pushed has been handled, for every driver and any number of loaders;
  so no interleaving can block the preparer or lose the way to the end of the work.\<close>

theorem work_can_finish:
  assumes "sys_reach head n acts s" and "head = AtDone \<or> head = AtPop" and "0 < n"
  shows "\<exists>s'. sys_steps head s s' \<and> sys_reach head n acts s' \<and>
    todo s' = [] \<and> data_queue (sq s') = [] \<and> mset (handled s') = mset (pushes acts)"
proof -
  have head: "head_ok head" using assms(2) by (simp add: head_ok_def)
  from work_finishes [OF sys_inv_reach [OF assms(1) head] assms(3) head] obtain s'
    where s': "sys_steps head s s'" "sys_inv n acts s'" "todo s' = []" "data_queue (sq s') = []" "hands (pcs s') = {#}"
    by blast
  then have "mset (handled s') = mset (pushes acts)" by (auto simp: sys_inv_def)
  with s' reach_steps [OF s'(1) assms(1)] show ?thesis by blast
qed

lemma work_can_finish_witness:
  "\<exists>s'. sys_steps AtPop (system_init AtPop 2 [Push default_message, WaitEmpty]) s' \<and>
     mset (handled s') = {#default_message#}"
  using work_can_finish [OF sys_start, of AtPop 2 "[Push default_message, WaitEmpty]"] by auto

end
