(* ===== verification/FairRuns.thy ===== *)
theory FairRuns
  imports Fairness SystemFacts
begin

text \<open>
  The infinite runs of the preparer and the loaders under a fair scheduler: the work gets done, the
  main thread gets to its join, and every loader of the MySQL driver leaves its loop or is left in
  the pop. Which configurations can end in such a pop, that is, in a join that never returns.
\<close>

section \<open>Whose turn it is\<close>

text \<open>Thread \<^const>\<open>None\<close> is the main thread, \<open>Some t\<close> loader \<open>t\<close>.\<close>

definition actor_step :: "pc \<Rightarrow> nat option \<Rightarrow> system \<Rightarrow> system option" where
  "actor_step head a s =
     (case a of
        None \<Rightarrow> main_step s
      | Some t \<Rightarrow> if t < length (pcs s) then loader_step head t s else None)"

definition actors :: "nat \<Rightarrow> nat option set" where
  "actors n = insert None (Some ` {..<n})"

lemma actor_step_sys_step: "actor_step head a s = Some s' \<Longrightarrow> sys_step head s s'"
  by (auto simp: actor_step_def split: option.splits if_splits intro: by_loader by_main)

lemma run_reach: "sys_reach head n acts (run (actor_step head) sched (system_init head n acts) k)"
  by (induction k) (auto split: option.splits intro: sys_start sys_next actor_step_sys_step)

text \<open>Every step of the main thread is a push, a wait that is over, or the end.\<close>

lemma actor_step_cases [consumes 1, case_names done_test loop_test if_test pop handle finish do_push do_wait]:
  assumes "actor_step head a s = Some s'"
  obtains
    t where "a = Some t" "t < length (pcs s)" "pcs s ! t = AtDone"
      "s' = goto_pc s t (if complete s then AtLoopEmpty else AtIf)"
  | t where "a = Some t" "t < length (pcs s)" "pcs s ! t = AtLoopEmpty"
      "s' = goto_pc s t (if is_empty (sq s) then Exited else AtIf)"
  | t where "a = Some t" "t < length (pcs s)" "pcs s ! t = AtIf"
      "s' = goto_pc s t (if is_empty (sq s) then AtDone else AtPop)"
  | t m q where "a = Some t" "t < length (pcs s)" "pcs s ! t = AtPop" "data_queue (sq s) = m # data_queue q"
      "s' = (goto_pc s t (Busy m))\<lparr>sq := q, popped := popped s @ [m]\<rparr>"
  | t m where "a = Some t" "t < length (pcs s)" "pcs s ! t = Busy m"
      "s' = (goto_pc s t head)\<lparr>handled := handled s @ [m]\<rparr>"
  | "a = None" "todo s = []" "\<not> complete s" "s' = s\<lparr>complete := True\<rparr>"
  | m acts where "a = None" "todo s = Push m # acts"
      "s' = s\<lparr>todo := acts, sq := push (sq s) m, pushed := pushed s @ [m]\<rparr>"
  | x acts where "a = None" "todo s = x # acts" "s' = s\<lparr>todo := acts\<rparr>"
proof (cases a)
  case None
  with assms show thesis
    unfolding actor_step_def main_step_def
    by (auto split: list.splits action.splits if_splits intro: that(6-8))
next
  case (Some t)
  with assms have "t < length (pcs s)" "loader_step head t s = Some s'"
    by (auto simp: actor_step_def split: if_splits)
  with Some show thesis
    unfolding loader_step_def
    by (cases "pcs s ! t") (auto split: option.splits simp: wait_and_pop_Some intro: that(1-5))
qed

section \<open>The messages get handled\<close>

text \<open>Pushing, popping and handling a message each leave less; so does the end of a wait.\<close>

definition work_left :: "system \<Rightarrow> nat" where
  "work_left s = 3 * length (todo s) + 2 * length (data_queue (sq s)) + size (hands (pcs s))"

text \<open>How many tests a loader has before its pop, and when it is the one that can go on.\<close>

fun to_pop :: "pc \<Rightarrow> nat" where
  "to_pop AtDone = 3"
| "to_pop AtLoopEmpty = 2"
| "to_pop AtIf = 1"
| "to_pop _ = 0"

fun in_query :: "pc \<Rightarrow> bool" where
  "in_query (Busy m) \<longleftrightarrow> True"
| "in_query _ \<longleftrightarrow> False"

definition can_help :: "nat option \<Rightarrow> system \<Rightarrow> bool" where
  "can_help a s \<longleftrightarrow>
     (case a of
        None \<Rightarrow> todo s \<noteq> [] \<and> data_queue (sq s) = []
      | Some t \<Rightarrow> t < length (pcs s) \<and>
          (in_query (pcs s ! t) \<or> data_queue (sq s) \<noteq> [] \<and> pcs s ! t \<noteq> Exited))"

definition pop_dist :: "nat option \<Rightarrow> system \<Rightarrow> nat" where
  "pop_dist a s = (case a of None \<Rightarrow> 0 | Some t \<Rightarrow> to_pop (pcs s ! t))"

lemma busy_iff: "in_query p \<longleftrightarrow> (\<exists>m. p = Busy m)"
  by (cases p) simp_all

lemma size_hands_update:
  "t < length ps \<Longrightarrow> size (hands (ps[t := p])) + size (hand (ps ! t)) = size (hands ps) + size (hand p)"
  using hands_update [of t ps p] by (metis size_union)

lemma no_hands: "hands ps = {#} \<longleftrightarrow> (\<forall>p \<in> set ps. \<not> in_query p)"
proof -
  have "hands ps = {#} \<longleftrightarrow> (\<forall>p \<in> set ps. hand p = {#})"
    by (induction ps) (simp_all add: hands_def)
  moreover have "hand p = {#} \<longleftrightarrow> \<not> in_query p" for p by (cases p) simp_all
  ultimately show ?thesis by simp
qed

lemma nobody_left: "work_left s = 0 \<longleftrightarrow> todo s = [] \<and> data_queue (sq s) = [] \<and> hands (pcs s) = {#}"
  by (auto simp: work_left_def)

text \<open>A step of a thread against the work: less, or nothing but the position of the thread has changed.\<close>

lemma step_work:
  assumes "actor_step head a s = Some s'" and "head_ok head"
  shows "work_left s' < work_left s \<or>
    work_left s' = work_left s \<and> todo s' = todo s \<and> sq s' = sq s \<and>
    (a = None \<and> todo s = [] \<and> pcs s' = pcs s \<or>
      (\<exists>t p. a = Some t \<and> t < length (pcs s) \<and> pcs s' = (pcs s)[t := p] \<and> \<not> in_query (pcs s ! t) \<and> \<not> in_query p \<and>
        (data_queue (sq s) \<noteq> [] \<longrightarrow> p \<noteq> Exited \<and> to_pop p < to_pop (pcs s ! t))))"
  using assms(1)
proof (cases rule: actor_step_cases)
  case (done_test t)
  then show ?thesis using size_hands_update [OF done_test(2), of "pcs s' ! t"]
    by (cases "complete s") (auto simp: work_left_def)
next
  case (loop_test t)
  then show ?thesis using size_hands_update [OF loop_test(2), of "pcs s' ! t"]
    by (cases "is_empty (sq s)") (auto simp: work_left_def is_empty_def)
next
  case (if_test t)
  then show ?thesis using size_hands_update [OF if_test(2), of "pcs s' ! t"]
    by (cases "is_empty (sq s)") (auto simp: work_left_def is_empty_def)
next
  case (pop t m q)
  with size_hands_update [OF pop(2), of "Busy m"] show ?thesis by (simp add: work_left_def)
next
  case (handle t m)
  with size_hands_update [OF handle(2), of head] assms(2) show ?thesis
    by (auto simp: work_left_def head_ok_def)
qed (simp_all add: work_left_def)

definition fair_inv :: "pc \<Rightarrow> nat \<Rightarrow> action list \<Rightarrow> system \<Rightarrow> bool" where
  "fair_inv head n acts s \<longleftrightarrow> 0 < n \<and> head_ok head \<and> sys_inv n acts s"

lemma fair_inv_step: "actor_step head a s = Some s' \<Longrightarrow> fair_inv head n acts s \<Longrightarrow> fair_inv head n acts s'"
  by (auto simp: fair_inv_def intro: sys_inv_step actor_step_sys_step)

lemma waiting_pop: "sys_inv n acts s \<Longrightarrow> data_queue (sq s) \<noteq> [] \<Longrightarrow> t < length (pcs s) \<Longrightarrow> pcs s ! t \<noteq> Exited"
  by (auto simp: sys_inv_def dest: nth_mem)

text \<open>Whoever can help moves.\<close>

lemma can_help_moves: "can_help a s \<Longrightarrow> actor_step head a s \<noteq> None"
  by (cases "case a of None \<Rightarrow> Exited | Some t \<Rightarrow> pcs s ! t")
    (auto simp: can_help_def actor_step_def main_step_def loader_step_def wait_and_pop_def
      wait_size_ready_def wait_empty_ready_def split: option.splits list.splits action.splits)

lemma some_can_help:
  assumes "fair_inv head n acts s" and "0 < work_left s"
  shows "\<exists>a \<in> actors n. can_help a s"
proof -
  from assms(1) have len: "length (pcs s) = n" "0 < n" and inv: "sys_inv n acts s"
    by (simp_all add: fair_inv_def sys_inv_def)
  consider "data_queue (sq s) \<noteq> []" | "hands (pcs s) \<noteq> {#}" | "data_queue (sq s) = []" "todo s \<noteq> []"
    using assms(2) by (cases "data_queue (sq s)"; cases "todo s") (auto simp: work_left_def nonempty_has_size)
  then show ?thesis
  proof cases
    case 1
    with waiting_pop [OF inv 1, of 0] len have "can_help (Some 0) s" by (simp add: can_help_def)
    with len(2) show ?thesis by (auto simp: actors_def)
  next
    case 2
    then obtain p where "p \<in> set (pcs s)" "in_query p" using no_hands by blast
    then obtain t where "t < n" "in_query (pcs s ! t)" using len by (auto simp: in_set_conv_nth)
    then have "can_help (Some t) s" using len by (simp add: can_help_def)
    with \<open>t < n\<close> show ?thesis by (auto simp: actors_def)
  next
    case 3
    then have "can_help None s" by (simp add: can_help_def)
    then show ?thesis by (auto simp: actors_def)
  qed
qed

interpretation handling: ranked_system "actor_step head" "actors n" "fair_inv head n acts" work_left can_help pop_dist
  for head n acts
proof
  fix a s s'
  assume step: "actor_step head a s = Some s'" and inv: "fair_inv head n acts s"
  show "fair_inv head n acts s'" using fair_inv_step [OF step inv] .
  have head: "head_ok head" using inv by (simp add: fair_inv_def)
  note cases = step_work [OF step head]
  show "work_left s' = 0" if "work_left s = 0" using cases that by simp
  show "work_left s' < work_left s \<or> work_left s' = work_left s \<and> can_help a s' \<and> pop_dist a s' < pop_dist a s"
    if "can_help a s" using cases that by (auto simp: can_help_def pop_dist_def)
  show "work_left s' < work_left s \<or> work_left s' = work_left s \<and> can_help b s' \<and> pop_dist b s' \<le> pop_dist b s"
    if "can_help b s" "a \<noteq> b" for b
    using cases that by (cases b) (auto simp: can_help_def pop_dist_def nth_list_update)
qed (rule some_can_help can_help_moves; assumption)+

lemma fair_inv_run:
  assumes "0 < n" and "head_ok head"
  shows "fair_inv head n acts (run (actor_step head) sched (system_init head n acts) k)"
  using assms sys_inv_reach [OF run_reach] by (simp add: fair_inv_def)

section \<open>The main thread gets to its join\<close>

text \<open>
  Once everything is handled the main thread sets the flag, and then no loader finds anything to do:
  the polling loops of \<open>MySQLDriver\<close> run out.
\<close>

definition handled_inv :: "pc \<Rightarrow> nat \<Rightarrow> action list \<Rightarrow> system \<Rightarrow> bool" where
  "handled_inv head n acts s \<longleftrightarrow> fair_inv head n acts s \<and> work_left s = 0"

definition flag_left :: "system \<Rightarrow> nat" where
  "flag_left s = (if complete s then 0 else 1)"

lemma flag_step:
  "actor_step head a s = Some s' \<Longrightarrow>
    complete s' = complete s \<and> a \<noteq> None \<or> complete s' \<or> a = None \<and> todo s \<noteq> []"
  by (cases rule: actor_step_cases) auto

lemma handled_inv_step: "actor_step head a s = Some s' \<Longrightarrow> handled_inv head n acts s \<Longrightarrow> handled_inv head n acts s'"
  using handling.inv_step handling.done_step by (metis handled_inv_def)

interpretation finishing: ranked_system "actor_step head" "actors n" "handled_inv head n acts" flag_left
    "\<lambda>a s. a = None \<and> \<not> complete s" "\<lambda>a s. 0"
  for head n acts
proof
  fix a s s'
  assume step: "actor_step head a s = Some s'" and inv: "handled_inv head n acts s"
  show "handled_inv head n acts s'" using handled_inv_step [OF step inv] .
  have "todo s = []" using inv by (simp add: handled_inv_def nobody_left)
  with flag_step [OF step] have flag: "complete s' \<or> complete s' = complete s \<and> a \<noteq> None" by auto
  show "flag_left s' = 0" if "flag_left s = 0"
    using that flag by (auto simp: flag_left_def split: if_splits)
  show "flag_left s' < flag_left s \<or> flag_left s' = flag_left s \<and> (a = None \<and> \<not> complete s') \<and> (0::nat) < 0"
    if "a = None \<and> \<not> complete s" using that flag by (simp add: flag_left_def)
  show "flag_left s' < flag_left s \<or> flag_left s' = flag_left s \<and> (b = None \<and> \<not> complete s') \<and> (0::nat) \<le> 0"
    if "b = None \<and> \<not> complete s" for b using that flag by (simp add: flag_left_def)
next
  fix s
  assume "handled_inv head n acts s" and "0 < flag_left s"
  then show "\<exists>a \<in> actors n. a = None \<and> \<not> complete s"
    by (simp add: flag_left_def actors_def split: if_splits)
next
  fix a :: "nat option" and s
  assume "handled_inv head n acts s" and "a = None \<and> \<not> complete s"
  then show "actor_step head a s \<noteq> None"
    by (auto simp: handled_inv_def nobody_left actor_step_def main_step_def)
qed

section \<open>The polling loops run out\<close>

fun to_exit :: "pc \<Rightarrow> nat" where
  "to_exit AtIf = 3"
| "to_exit AtDone = 2"
| "to_exit AtLoopEmpty = 1"
| "to_exit _ = 0"

definition ended_inv :: "pc \<Rightarrow> nat \<Rightarrow> action list \<Rightarrow> system \<Rightarrow> bool" where
  "ended_inv head n acts s \<longleftrightarrow> handled_inv head n acts s \<and> flag_left s = 0"

definition loops_left :: "system \<Rightarrow> nat" where
  "loops_left s = sum_list (map to_exit (pcs s))"

definition still_loops :: "nat option \<Rightarrow> system \<Rightarrow> bool" where
  "still_loops a s \<longleftrightarrow> (\<exists>t. a = Some t \<and> t < length (pcs s) \<and> 0 < to_exit (pcs s ! t))"

lemma loops_update:
  "t < length ps \<Longrightarrow> sum_list (map to_exit (ps[t := p])) + to_exit (ps ! t) = sum_list (map to_exit ps) + to_exit p"
  by (induction ps arbitrary: t) (auto split: nat.splits simp: nth_Cons)

lemma ended_facts:
  assumes "ended_inv head n acts s"
  shows "complete s" "todo s = []" "data_queue (sq s) = []" "hands (pcs s) = {#}" "length (pcs s) = n"
  using assms
  by (auto simp: ended_inv_def handled_inv_def nobody_left flag_left_def fair_inv_def sys_inv_def split: if_splits)

text \<open>After the end every step of a loader brings it nearer to its exit.\<close>

lemma ended_step:
  assumes step: "actor_step head a s = Some s'" and inv: "ended_inv head n acts s"
  shows "loops_left s' < loops_left s"
proof -
  note facts = ended_facts [OF inv]
  have idle: "\<not> in_query (pcs s ! t)" if "t < length (pcs s)" for t
    using facts(4) that nth_mem no_hands by blast
  from step show ?thesis
  proof (cases rule: actor_step_cases)
    case (done_test t)
    with loops_update [OF done_test(2), of AtLoopEmpty] facts show ?thesis by (simp add: loops_left_def)
  next
    case (loop_test t)
    with loops_update [OF loop_test(2), of Exited] facts show ?thesis by (simp add: loops_left_def is_empty_def)
  next
    case (if_test t)
    with loops_update [OF if_test(2), of AtDone] facts show ?thesis by (simp add: loops_left_def is_empty_def)
  next
    case (handle t m)
    with idle [OF handle(2)] show ?thesis by simp
  qed (use facts in simp_all)
qed

lemma still_loops_moves: "still_loops a s \<Longrightarrow> actor_step head a s \<noteq> None"
proof -
  assume "still_loops a s"
  then obtain t where "a = Some t" "t < length (pcs s)" "0 < to_exit (pcs s ! t)" by (auto simp: still_loops_def)
  then show "actor_step head a s \<noteq> None"
    by (cases "pcs s ! t") (auto simp: actor_step_def loader_step_def)
qed

interpretation leaving: ranked_system "actor_step head" "actors n" "ended_inv head n acts" loops_left still_loops
    "\<lambda>a s. 0"
  for head n acts
proof
  fix a s s'
  assume step: "actor_step head a s = Some s'" and inv: "ended_inv head n acts s"
  show "ended_inv head n acts s'"
    using inv finishing.inv_step [OF step, of n acts] finishing.done_step [OF _ _ step, of n acts]
    by (auto simp: ended_inv_def)
  note less = ended_step [OF step inv]
  show "loops_left s' = 0" if "loops_left s = 0" using less that by simp
  show "loops_left s' < loops_left s \<or> loops_left s' = loops_left s \<and> still_loops a s' \<and> (0::nat) < 0"
    using less by simp
  show "loops_left s' < loops_left s \<or> loops_left s' = loops_left s \<and> still_loops b s' \<and> (0::nat) \<le> 0" for b
    using less by simp
next
  fix s
  assume inv: "ended_inv head n acts s" and "0 < loops_left s"
  then obtain p where "p \<in> set (pcs s)" "0 < to_exit p"
    by (fastforce simp: loops_left_def neq0_conv [symmetric] simp del: neq0_conv)
  then obtain t where "t < n" "0 < to_exit (pcs s ! t)"
    using ended_facts(5) [OF inv] by (auto simp: in_set_conv_nth)
  then show "\<exists>a \<in> actors n. still_loops a s"
    using ended_facts(5) [OF inv] by (auto simp: still_loops_def actors_def)
qed (rule still_loops_moves)

lemma loops_run_out: "loops_left s = 0 \<longleftrightarrow> set (pcs s) \<subseteq> {AtPop, Exited} \<union> Collect in_query"
proof -
  have "to_exit p = 0 \<longleftrightarrow> p \<in> {AtPop, Exited} \<union> Collect in_query" for p by (cases p) simp_all
  then show ?thesis by (auto simp: loops_left_def)
qed

lemma ended_pcs:
  assumes "ended_inv head n acts s" and "loops_left s = 0"
  shows "set (pcs s) \<subseteq> {AtPop, Exited}"
proof -
  have "\<forall>p \<in> set (pcs s). \<not> in_query p" using ended_facts(4) [OF assms(1)] by (simp add: no_hands)
  moreover have "set (pcs s) \<subseteq> {AtPop, Exited} \<union> Collect in_query" using assms(2) by (simp only: loops_run_out)
  ultimately show ?thesis by auto
qed

lemma ended_handled: "ended_inv head n acts s \<Longrightarrow> mset (handled s) = mset (pushes acts)"
proof -
  assume ended: "ended_inv head n acts s"
  then have "sys_inv n acts s" by (simp add: ended_inv_def handled_inv_def fair_inv_def)
  then have "popped s @ data_queue (sq s) @ pushes (todo s) = pushes acts"
    "mset (handled s) + hands (pcs s) = mset (popped s)"
    by (auto simp: sys_inv_def simp flip: append_assoc)
  with ended_facts [OF ended] show ?thesis by simp
qed

section \<open>Stuck in the pop\<close>

text \<open>Where nothing is pushed no loader gets to the pop.\<close>

lemma no_pop_reach:
  assumes "sys_reach AtDone n acts s" and "pushes acts = []"
  shows "AtPop \<notin> set (pcs s)"
  using assms(1)
proof (induction rule: sys_reach.induct)
  case sys_start
  show ?case by (simp add: system_init_def)
next
  case (sys_next s s')
  have "data_queue (sq s) = []"
    using sys_inv_reach [OF sys_next.hyps(1)] assms(2) by (auto simp: sys_inv_def head_ok_def)
  with sys_next.hyps(2) sys_next.IH show ?case
    by (cases rule: sys_step_cases) (auto simp: is_empty_def dest!: mem_update)
qed

text \<open>Between two messages: everything pushed so far has been handled by loader 0.\<close>

definition between :: "nat \<Rightarrow> action list \<Rightarrow> message list \<Rightarrow> system" where
  "between n acts ms =
     \<lparr>sq = tsqueue_new, pcs = replicate n AtDone, todo = acts, complete = False,
      pushed = ms, popped = ms, handled = ms\<rparr>"

lemma replicate_update_same: "(replicate n p)[t := p] = replicate n p"
  by (cases "t < n") (auto intro: nth_equalityI simp: nth_list_update)

lemma between_next:
  assumes "0 < n"
  shows "\<exists>sched. run_schedule AtDone sched (between n (a # acts) ms) = Some (between n acts (ms @ pushes [a]))"
proof (cases a)
  case (Push m)
  have "run_schedule AtDone [None, Some 0, Some 0, Some 0, Some 0] (between n (a # acts) ms)
    = Some (between n acts (ms @ pushes [a]))"
    using assms Push by (simp add: between_def schedule_simps replicate_update_same)
  then show ?thesis by blast
next
  case (WaitSize w)
  have "run_schedule AtDone [None] (between n (a # acts) ms) = Some (between n acts (ms @ pushes [a]))"
    using WaitSize by (simp add: between_def schedule_simps wait_size_ready_def)
  then show ?thesis by blast
next
  case WaitEmpty
  have "run_schedule AtDone [None] (between n (a # acts) ms) = Some (between n acts (ms @ pushes [a]))"
    using WaitEmpty by (simp add: between_def schedule_simps)
  then show ?thesis by blast
qed

lemma between_reach:
  assumes "0 < n" and "sys_reach AtDone n acts (between n (pre @ rest) ms)"
  shows "sys_reach AtDone n acts (between n rest (ms @ pushes pre))"
  using assms(2)
proof (induction pre arbitrary: ms)
  case (Cons a pre)
  obtain sched where "run_schedule AtDone sched (between n (a # pre @ rest) ms) = Some (between n (pre @ rest) (ms @ pushes [a]))"
    using between_next [OF assms(1)] by blast
  from run_schedule_reach [OF this] Cons.prems have "sys_reach AtDone n acts (between n (pre @ rest) (ms @ pushes [a]))"
    by simp
  from Cons.IH [OF this] show ?case
    using pushes_append [of "[a]" pre] by simp
qed simp

text \<open>Two loaders see the last message; loader 0 takes it and loader 1 goes to the pop.\<close>

lemma last_message:
  assumes "2 \<le> n"
  shows "\<exists>sched s. run_schedule AtDone sched (between n (Push m # post) ms) = Some s \<and>
    pcs s = (replicate n AtDone)[1 := AtPop] \<and> todo s = post \<and> data_queue (sq s) = [] \<and> \<not> complete s"
proof -
  let ?sched = "[None, Some 0, Some 1, Some 0, Some 1, Some 0, Some (0::nat)]"
  have two: "0 < n" "Suc 0 < n" using assms by simp_all
  obtain s where "run_schedule AtDone ?sched (between n (Push m # post) ms) = Some s"
    "pcs s = (replicate n AtDone)[1 := AtPop, 0 := AtDone]" "todo s = post" "data_queue (sq s) = []" "\<not> complete s"
    using two by (simp add: between_def schedule_simps list_update_swap nth_list_update)
  moreover have "(replicate n AtDone)[1 := AtPop, 0 := AtDone] = (replicate n AtDone)[1 := AtPop]"
    by (metis list_update_swap replicate_update_same zero_neq_one)
  ultimately show ?thesis by metis
qed

text \<open>The main thread goes on to its end, and the other loaders leave their loops.\<close>

lemma main_goes_on:
  assumes "sys_reach AtDone n acts s" and "pushes (todo s) = []" and "data_queue (sq s) = []"
  shows "\<exists>s'. sys_reach AtDone n acts s' \<and> pcs s' = pcs s \<and> todo s' = [] \<and> complete s' \<and> data_queue (sq s') = []"
  using assms
proof (induction "todo s" arbitrary: s)
  case Nil
  show ?case
  proof (cases "complete s")
    case True
    with Nil show ?thesis by auto
  next
    case False
    then have "main_step s = Some (s\<lparr>complete := True\<rparr>)" using Nil.hyps by (simp add: main_step_def)
    from sys_next [OF Nil.prems(1) by_main [OF this]] Nil show ?thesis
      by (intro exI [of _ "s\<lparr>complete := True\<rparr>"]) simp
  qed
next
  case (Cons a acts')
  have "main_step s = Some (s\<lparr>todo := acts'\<rparr>)" "pushes acts' = []"
    using Cons.prems Cons.hyps(2) [symmetric]
    by (cases a; simp add: main_step_def wait_size_ready_def wait_empty_ready_def)+
  from Cons.hyps(1) [of "s\<lparr>todo := acts'\<rparr>"] sys_next [OF Cons.prems(1) by_main [OF this(1)]] this(2) Cons.prems(3)
  show ?case by simp
qed

lemma others_leave:
  assumes "ended_inv AtDone n acts s" and "sys_reach AtDone n acts s" and "u < n" and "pcs s ! u = AtPop"
  shows "\<exists>s'. ended_inv AtDone n acts s' \<and> sys_reach AtDone n acts s' \<and> loops_left s' = 0 \<and> pcs s' ! u = AtPop"
  using assms
proof (induction "loops_left s" arbitrary: s rule: less_induct)
  case less
  show ?case
  proof (cases "loops_left s = 0")
    case True
    with less.prems show ?thesis by blast
  next
    case False
    then obtain t where t: "still_loops (Some t) s"
      using leaving.some_helpful [OF less.prems(1)] by (auto simp: still_loops_def)
    then obtain s' where s': "actor_step AtDone (Some t) s = Some s'" using still_loops_moves by blast
    have "t \<noteq> u" using t less.prems(4) by (auto simp: still_loops_def)
    with s' have "pcs s' ! u = AtPop"
      using less.prems(4) by (cases rule: actor_step_cases) auto
    with less.hyps [OF ended_step [OF s' less.prems(1)]] leaving.inv_step [OF s' less.prems(1)]
      sys_next [OF less.prems(2) actor_step_sys_step [OF s']] less.prems(3)
    show ?thesis by blast
  qed
qed

lemma ended_stuck: "ended_inv head n acts s \<Longrightarrow> loops_left s = 0 \<Longrightarrow> \<nexists>s'. sys_step head s s'"
proof
  assume ended: "ended_inv head n acts s" "loops_left s = 0" and "\<exists>s'. sys_step head s s'"
  then obtain s' where "sys_step head s s'" by blast
  then obtain a where "actor_step head a s = Some s'"
    by (cases rule: sys_step.cases) (auto simp: actor_step_def dest: spec [where x = "Some _"] intro: that [of None] that [of "Some _"])
  with ended_step [OF this ended(1)] ended(2) show False by simp
qed

lemma last_push:
  "pushes acts \<noteq> [] \<Longrightarrow> \<exists>pre m post. acts = pre @ Push m # post \<and> pushes post = []"
proof (induction acts)
  case (Cons a acts)
  show ?case
  proof (cases "pushes acts = []")
    case True
    with Cons.prems show ?thesis by (cases a) force+
  next
    case False
    with Cons.IH obtain pre m post where "acts = pre @ Push m # post" "pushes post = []" by blast
    then show ?thesis by (intro exI [of _ "a # pre"]) auto
  qed
qed simp

lemma hang_reachable:
  assumes "2 \<le> n" and "pushes acts \<noteq> []"
  shows "\<exists>s. ended_inv AtDone n acts s \<and> sys_reach AtDone n acts s \<and> loops_left s = 0 \<and> pcs s ! 1 = AtPop"
proof -
  obtain pre m post where acts: "acts = pre @ Push m # post" "pushes post = []"
    using last_push [OF assms(2)] by blast
  have "system_init AtDone n acts = between n acts []" by (simp add: system_init_def between_def)
  with sys_start [of AtDone n acts] between_reach [of n acts pre "Push m # post" "[]"] assms(1) acts(1)
  have 1: "sys_reach AtDone n acts (between n (Push m # post) (pushes pre))" by simp
  obtain sched s where s: "run_schedule AtDone sched (between n (Push m # post) (pushes pre)) = Some s"
    "pcs s = (replicate n AtDone)[1 := AtPop]" "todo s = post" "data_queue (sq s) = []"
    using last_message [OF assms(1)] by blast
  from main_goes_on [OF run_schedule_reach [OF s(1) 1]] s(3,4) acts(2) obtain s'
    where s': "sys_reach AtDone n acts s'" "pcs s' = pcs s" "todo s' = []" "complete s'" "data_queue (sq s') = []"
    by blast
  have "hands (pcs s') = {#}"
    unfolding s'(2) s(2) by (rule hands_idle) (auto dest!: mem_update)
  moreover have "fair_inv AtDone n acts s'"
    using sys_inv_reach [OF s'(1)] assms(1) by (simp add: fair_inv_def head_ok_def)
  ultimately have "ended_inv AtDone n acts s'"
    using s' by (simp add: ended_inv_def handled_inv_def flag_left_def nobody_left)
  from others_leave [OF this s'(1), of 1] assms(1) s'(2) s(2) show ?thesis by simp
qed

section \<open>Properties\<close>

lemma handling_start:
  assumes "sys_reach head n acts s" and "head = AtDone \<or> head = AtPop" and "0 < n"
  shows "fair_inv head n acts (run (actor_step head) sched s 0)"
  using assms sys_inv_reach [OF assms(1)] by (simp add: fair_inv_def head_ok_def)

lemma fair_handled:
  assumes "fair (actors n) sched" and "fair_inv head n acts (run (actor_step head) sched s 0)"
  obtains k where "ended_inv head n acts (run (actor_step head) sched s k)"
proof -
  obtain i where "handled_inv head n acts (run (actor_step head) sched s i)"
    using handling.work_gets_done [OF assms] by (auto simp: handled_inv_def)
  from finishing.work_gets_done [OF assms(1) this] show thesis
    using that by (auto simp: ended_inv_def)
qed

lemma fair_end:
  assumes "fair (actors n) sched" and "sys_reach head n acts s" and "head = AtDone \<or> head = AtPop" and "0 < n"
  shows "\<exists>k. \<forall>j\<ge>k. let s' = run (actor_step head) sched s j in
    todo s' = [] \<and> complete s' \<and> data_queue (sq s') = [] \<and> mset (handled s') = mset (pushes acts)"
proof -
  obtain k where k: "ended_inv head n acts (run (actor_step head) sched s k)"
    using fair_handled [OF assms(1) handling_start [OF assms(2-4)]] by blast
  show ?thesis
  proof (intro exI allI impI)
    fix j
    assume "k \<le> j"
    from leaving.inv_run [OF k this] show "let s' = run (actor_step head) sched s j in
      todo s' = [] \<and> complete s' \<and> data_queue (sq s') = [] \<and> mset (handled s') = mset (pushes acts)"
      by (simp add: Let_def ended_facts [of head n acts] ended_handled)
  qed
qed

lemma fair_end_handled:
  assumes "fair (actors n) sched" and "0 < n"
  shows "\<exists>k. \<forall>j\<ge>k. mset (handled (run (actor_step AtDone) sched (system_init AtDone n acts) j)) = mset (pushes acts)"
  using fair_end [OF assms(1) sys_start _ assms(2), of AtDone acts] by (auto simp: Let_def)

text \<open>Under every fair scheduler the load comes to its end. From any reachable state, with any number of
  loaders of any driver, there is a moment from which on the preparer has done all its pushes and
  waits and set the completion flag, the queue is empty, and every message has been handled exactly
  once: no interleaving blocks the preparer or leaves a message behind.\<close>

theorem fair_runs_end:
  assumes "fair (actors n) sched" and "sys_reach head n acts s" and "head = AtDone \<or> head = AtPop" and "0 < n"
  shows "\<exists>k. \<forall>j\<ge>k. let s' = run (actor_step head) sched s j in
    todo s' = [] \<and> complete s' \<and> data_queue (sq s') = [] \<and> mset (handled s') = mset (pushes acts)"
  by (rule fair_end [OF assms])

text \<open>Two threads take turns.\<close>

definition turns :: "nat \<Rightarrow> nat option" where
  "turns k = (if even k then None else Some 0)"

lemma turns_fair: "fair (actors 1) turns"
proof -
  have "\<exists>j\<ge>k. turns j = None" "\<exists>j\<ge>k. turns j = Some 0" for k
    by (intro exI [of _ "2 * k"] exI [of _ "Suc (2 * k)"]; simp add: turns_def)+
  then show ?thesis unfolding fair_def actors_def by (auto simp: lessThan_Suc)
qed

lemma fair_runs_end_witness:
  "\<exists>k. mset (handled (run (actor_step AtPop) turns (system_init AtPop 1 [Push default_message, WaitEmpty]) k))
    = {#default_message#}"
  using fair_runs_end [OF turns_fair sys_start, of AtPop "[Push default_message, WaitEmpty]"]
  by (auto simp: Let_def)

text \<open>C8: Under every fair scheduler every loader of the MySQL driver leaves its loop or is left in the pop:
  from some moment on no loader polls any more. A single loader leaves its loop, and so do all
  loaders when there was nothing to push, so \<open>JoinThreads\<close> returns.\<close>

theorem fair_mysql_loaders_leave:
  assumes "fair (actors n) sched" and "sys_reach AtDone n acts s" and "0 < n"
  shows "\<exists>k. \<forall>j\<ge>k. let s' = run (actor_step AtDone) sched s j in
    set (pcs s') \<subseteq> {AtPop, Exited} \<and> (n = 1 \<or> pushes acts = [] \<longrightarrow> all_exited s')"
proof -
  obtain i where "ended_inv AtDone n acts (run (actor_step AtDone) sched s i)"
    using fair_handled [OF assms(1) handling_start [OF assms(2) _ assms(3)]] by blast
  from leaving.work_gets_done [OF assms(1) this] obtain k where
    k: "\<And>j. k \<le> j \<Longrightarrow> ended_inv AtDone n acts (run (actor_step AtDone) sched s j) \<and>
      loops_left (run (actor_step AtDone) sched s j) = 0" by blast
  show ?thesis
  proof (intro exI allI impI)
    fix j
    let ?s = "run (actor_step AtDone) sched s j"
    assume "k \<le> j"
    note ended = conjunct1 [OF k [OF this]] conjunct2 [OF k [OF this]]
    have reach: "sys_reach AtDone n acts ?s"
      by (rule run_keeps [of _ _ _ _ 0]) (use assms(2) in \<open>auto intro: sys_next actor_step_sys_step\<close>)
    have sub: "set (pcs ?s) \<subseteq> {AtPop, Exited}" by (rule ended_pcs [OF ended])
    moreover have "all_exited ?s" if "n = 1 \<or> pushes acts = []"
      using that
    proof
      assume one: "n = 1"
      with lone_inv_reach [of acts ?s] reach ended_facts(3) [OF ended(1)]
      have "length (pcs ?s) = 1" "pcs ?s ! 0 \<noteq> AtPop" by (simp_all add: lone_inv_def)
      then have "AtPop \<notin> set (pcs ?s)" by (auto simp: in_set_conv_nth)
      with sub show ?thesis by (auto simp: all_exited_def list_all_iff)
    next
      assume "pushes acts = []"
      with no_pop_reach [OF reach] sub show ?thesis by (auto simp: all_exited_def list_all_iff)
    qed
    ultimately show "let s' = ?s in set (pcs s') \<subseteq> {AtPop, Exited} \<and> (n = 1 \<or> pushes acts = [] \<longrightarrow> all_exited s')"
      by (simp add: Let_def)
  qed
qed

lemma fair_mysql_loaders_leave_witness:
  "\<exists>k. all_exited (run (actor_step AtDone) turns (system_init AtDone 1 [Push default_message, WaitEmpty]) k)"
  using fair_mysql_loaders_leave [OF turns_fair sys_start, of "[Push default_message, WaitEmpty]"]
  by (auto simp: Let_def)

text \<open>A state of the MySQL driver in which nobody can move.\<close>

abbreviation stuck :: "system \<Rightarrow> bool" where
  "stuck s \<equiv> \<nexists>s'. sys_step AtDone s s'"

lemma stuck_facts:
  assumes "sys_reach AtDone n acts s" and "0 < n" and "stuck s"
  shows "set (pcs s) \<subseteq> {AtPop, Exited}" "complete s" "data_queue (sq s) = []"
    "mset (handled s) = mset (pushes acts)"
proof -
  have inv: "sys_inv n acts s" using sys_inv_reach [OF assms(1)] by (simp add: head_ok_def)
  have pop: "pcs s ! t = AtPop \<and> data_queue (sq s) = []" if "t < length (pcs s)" "pcs s ! t \<noteq> Exited" for t
    using loader_can_step [OF that] assms(3) by blast
  show sub: "set (pcs s) \<subseteq> {AtPop, Exited}"
  proof
    fix p
    assume "p \<in> set (pcs s)"
    then obtain t where "t < length (pcs s)" "pcs s ! t = p" by (auto simp: in_set_conv_nth)
    with pop [of t] show "p \<in> {AtPop, Exited}" by (cases "p = Exited") auto
  qed
  show c: "complete s" using no_deadlock_before_completion [OF assms(1) _ assms(2)] assms(3) by blast
  have len: "0 < length (pcs s)" using inv assms(2) by (simp add: sys_inv_def)
  show q: "data_queue (sq s) = []"
    using waiting_pop [OF inv _ len] pop [OF len] by blast
  have "hands (pcs s) = {#}" unfolding no_hands using sub by auto
  with inv c q have "popped s = pushes acts" "mset (handled s) = mset (popped s)" by (auto simp: sys_inv_def)
  then show "mset (handled s) = mset (pushes acts)" by simp
qed

text \<open>C7: Which loads can hang in \<open>JoinThreads\<close>. The MySQL driver can get to a state in which no thread can
  move and some loader has not left its loop exactly when there are at least two loaders and anything
  at all is pushed. In every such state the completion flag is set, every message is handled, and the
  loaders that are left are in \<open>wait_and_pop\<close> on the empty queue that nobody will fill.\<close>

theorem mysql_hang_iff:
  "((\<exists>s. sys_reach AtDone n acts s \<and> \<not> all_exited s \<and> stuck s) \<longleftrightarrow> 2 \<le> n \<and> pushes acts \<noteq> []) \<and>
   (\<forall>s. sys_reach AtDone n acts s \<and> \<not> all_exited s \<and> stuck s \<longrightarrow>
     complete s \<and> set (pcs s) \<subseteq> {AtPop, Exited} \<and> data_queue (sq s) = [] \<and>
     mset (handled s) = mset (pushes acts))"
proof (intro conjI iffI allI impI)
  assume "2 \<le> n \<and> pushes acts \<noteq> []"
  with hang_reachable [of n acts] obtain s where
    s: "ended_inv AtDone n acts s" "sys_reach AtDone n acts s" "loops_left s = 0" "pcs s ! 1 = AtPop" "1 < n"
    by auto
  have "\<not> all_exited s"
    using s(4,5) ended_facts(5) [OF s(1)] by (auto simp: all_exited_def list_all_length)
  with s(2) ended_stuck [OF s(1,3)] show "\<exists>s. sys_reach AtDone n acts s \<and> \<not> all_exited s \<and> stuck s" by blast
next
  assume "\<exists>s. sys_reach AtDone n acts s \<and> \<not> all_exited s \<and> stuck s"
  then obtain s where s: "sys_reach AtDone n acts s" "\<not> all_exited s" "stuck s" by blast
  from s(2) obtain t where t: "t < length (pcs s)" "pcs s ! t \<noteq> Exited"
    by (auto simp: all_exited_def list_all_length)
  then have pop: "pcs s ! t = AtPop" using loader_can_step [OF t] s(3) by blast
  have "length (pcs s) = n" using sys_inv_reach [OF s(1)] by (simp add: sys_inv_def head_ok_def)
  then have "n \<noteq> 0" using t(1) by auto
  moreover have "n \<noteq> 1" using one_loader_never_hangs [of acts s] s by blast
  ultimately show "2 \<le> n" by simp
  show "pushes acts \<noteq> []" using no_pop_reach [OF s(1)] pop nth_mem [OF t(1)] by metis
next
  fix s
  assume s: "sys_reach AtDone n acts s \<and> \<not> all_exited s \<and> stuck s"
  have "length (pcs s) = n" using s sys_inv_reach [of AtDone n acts s] by (simp add: sys_inv_def head_ok_def)
  moreover have "pcs s \<noteq> []" using s by (auto simp: all_exited_def)
  ultimately have "0 < n" by auto
  note facts = stuck_facts [OF _ this, of acts s]
  show "complete s" "set (pcs s) \<subseteq> {AtPop, Exited}" "data_queue (sq s) = []"
    "mset (handled s) = mset (pushes acts)" using facts s by blast+
qed

lemma mysql_hang_iff_witness:
  "mset (handled (second_loader_hangs default_message)) = mset (pushes [Push default_message])"
proof -
  have "stuck (second_loader_hangs default_message)"
    by (auto simp: second_loader_hangs_def schedule_simps less_Suc_eq elim!: sys_stepE)
  moreover have "\<not> all_exited (second_loader_hangs default_message)" by (simp add: second_loader_hangs_def all_exited_def)
  ultimately show ?thesis
    using mysql_hang_iff [of 2 "[Push default_message]"] second_loader_hangs_reach by blast
qed

end
