(* ===== verification/MonitorRuns.thy ===== *)
theory MonitorRuns
  imports FairRuns TsMonitor
begin

text \<open>
  The program with the condition variables: the system of \<open>Loader\<close> run together with the monitor of
  \<open>TsMonitor\<close>. A loader that finds nothing in \<open>wait_and_pop\<close> goes to sleep on \<open>data_cond\<close>, the main
  thread in \<open>wait_size\<close> and \<open>wait_empty\<close> on \<open>empty_cond\<close>; a push and a pop notify. Every step is a step
  of either system or leaves it as it is, so what is proved of the two carries over; together they
  give that the load comes to its end whichever sleeper a notification picks.
\<close>

section \<open>The composed system\<close>

record composed =
  csys :: system
  cmon :: "message monitor"
  tick :: nat

text \<open>
  \<open>SpuriousT t\<close> is a spurious wake-up: of loader \<open>t\<close> where it sleeps, otherwise of the sleeper on \<open>empty_cond\<close>.
\<close>

datatype cthread = MainT | LoaderT nat | SpuriousT nat

text \<open>The monitor names the loaders by their index, and the main thread by their number.\<close>

definition main_id :: "composed \<Rightarrow> nat" where
  "main_id s = length (pcs (csys s))"

text \<open>A \<open>notify_one\<close> that wakes the sleeper that the number \<open>p\<close> picks.\<close>

fun notify :: "nat \<Rightarrow> 'w list \<Rightarrow> 'w list \<Rightarrow> 'w list \<times> 'w list" where
  "notify p [] wk = ([], wk)"
| "notify p (w # ws) wk =
     (let x = (w # ws) ! (p mod length (w # ws)) in (remove1 x (w # ws), x # wk))"

definition composed_init :: "pc \<Rightarrow> nat \<Rightarrow> action list \<Rightarrow> composed" where
  "composed_init head n acts = \<lparr>csys = system_init head n acts, cmon = monitor_init, tick = 0\<rparr>"

definition main_push :: "(nat \<Rightarrow> nat) \<Rightarrow> message \<Rightarrow> composed \<Rightarrow> composed option" where
  "main_push pick m s =
     (case main_step (csys s) of
        None \<Rightarrow> None
      | Some y \<Rightarrow>
          (let M = cmon s; (dw, dk) = notify (pick (tick s)) (data_waiting M) (data_woken M) in
           Some \<lparr>csys = y, cmon = M\<lparr>mon_queue := push (mon_queue M) m, data_waiting := dw, data_woken := dk\<rparr>,
                 tick = Suc (tick s)\<rparr>))"

definition main_wait :: "u32 \<Rightarrow> composed \<Rightarrow> composed option" where
  "main_wait sz s =
     (let M = cmon s; w = (main_id s, sz) in
      if w \<in> set (empty_waiting M) then None
      else (let M' = M\<lparr>empty_woken := remove1 w (empty_woken M)\<rparr> in
            case main_step (csys s) of
              Some y \<Rightarrow> Some (s\<lparr>csys := y, cmon := M'\<rparr>)
            | None \<Rightarrow> Some (s\<lparr>cmon := M'\<lparr>empty_waiting := w # empty_waiting M\<rparr>\<rparr>)))"

definition main_turn :: "(nat \<Rightarrow> nat) \<Rightarrow> composed \<Rightarrow> composed option" where
  "main_turn pick s =
     (case todo (csys s) of
        [] \<Rightarrow> (case main_step (csys s) of None \<Rightarrow> None | Some y \<Rightarrow> Some (s\<lparr>csys := y\<rparr>))
      | a # acts \<Rightarrow>
          (case a of Push m \<Rightarrow> main_push pick m s | WaitSize sz \<Rightarrow> main_wait sz s | WaitEmpty \<Rightarrow> main_wait 0 s))"

definition loader_pop :: "(nat \<Rightarrow> nat) \<Rightarrow> pc \<Rightarrow> nat \<Rightarrow> composed \<Rightarrow> composed option" where
  "loader_pop pick head t s =
     (let M = cmon s in
      if t \<in> set (data_waiting M) then None
      else
        (case loader_step head t (csys s) of
           None \<Rightarrow> Some (s\<lparr>cmon := M\<lparr>data_woken := remove1 t (data_woken M), data_waiting := t # data_waiting M\<rparr>\<rparr>)
         | Some y \<Rightarrow>
             (let (ew, ek) = notify (pick (tick s)) (empty_waiting M) (empty_woken M) in
              Some \<lparr>csys = y, cmon = M\<lparr>mon_queue := sq y, data_woken := remove1 t (data_woken M),
                    empty_waiting := ew, empty_woken := ek\<rparr>, tick = Suc (tick s)\<rparr>)))"

definition loader_go :: "(nat \<Rightarrow> nat) \<Rightarrow> pc \<Rightarrow> nat \<Rightarrow> composed \<Rightarrow> composed option" where
  "loader_go pick head t s =
     (if t < length (pcs (csys s))
      then if pcs (csys s) ! t = AtPop then loader_pop pick head t s
           else (case loader_step head t (csys s) of None \<Rightarrow> None | Some y \<Rightarrow> Some (s\<lparr>csys := y\<rparr>))
      else None)"

definition wake_up :: "nat \<Rightarrow> composed \<Rightarrow> composed option" where
  "wake_up t s =
     (let M = cmon s in
      if t \<in> set (data_waiting M)
      then Some (s\<lparr>cmon := M\<lparr>data_waiting := remove1 t (data_waiting M), data_woken := t # data_woken M\<rparr>\<rparr>)
      else case empty_waiting M of
             [] \<Rightarrow> None
           | w # ws \<Rightarrow> Some (s\<lparr>cmon := M\<lparr>empty_waiting := remove1 w (w # ws), empty_woken := w # empty_woken M\<rparr>\<rparr>))"

definition composed_step :: "(nat \<Rightarrow> nat) \<Rightarrow> pc \<Rightarrow> cthread \<Rightarrow> composed \<Rightarrow> composed option" where
  "composed_step pick head a s =
     (case a of MainT \<Rightarrow> main_turn pick s | LoaderT t \<Rightarrow> loader_go pick head t s | SpuriousT t \<Rightarrow> wake_up t s)"

section \<open>The two projections\<close>

lemma notify_ok: "notify p ws wk = (ws', wk') \<Longrightarrow> notify_one ws wk ws' wk'"
proof (cases ws)
  case (Cons w ws1)
  assume n: "notify p ws wk = (ws', wk')"
  let ?x = "ws ! (p mod length ws)"
  have "?x \<in> set ws" using Cons by (intro nth_mem) simp
  moreover have "ws' = remove1 ?x ws" "wk' = ?x # wk" using n Cons by (auto simp: Let_def)
  ultimately show ?thesis using notify_one.somebody by metis
qed (auto intro: notify_one.nobody)

text \<open>The composition adds no behaviour to the system of \<open>Loader\<close>.\<close>

lemma composed_system:
  assumes "composed_step pick head a s = Some s'"
  shows "csys s' = csys s \<or> sys_step head (csys s) (csys s')"
proof (cases a)
  case MainT
  with assms have "main_turn pick s = Some s'" by (simp add: composed_step_def)
  then have "csys s' = csys s \<or> main_step (csys s) = Some (csys s')"
    by (auto simp: main_turn_def main_push_def main_wait_def Let_def
        split: list.splits action.splits option.splits if_splits prod.splits)
  then show ?thesis by (auto intro: by_main)
next
  case (LoaderT t)
  with assms have "loader_go pick head t s = Some s'" by (simp add: composed_step_def)
  then have "csys s' = csys s \<or> t < length (pcs (csys s)) \<and> loader_step head t (csys s) = Some (csys s')"
    by (auto simp: loader_go_def loader_pop_def Let_def split: option.splits if_splits prod.splits)
  then show ?thesis by (auto intro: by_loader)
next
  case (SpuriousT t)
  with assms show ?thesis
    by (auto simp: composed_step_def wake_up_def Let_def split: if_splits list.splits)
qed

lemma composed_reach: "sys_reach head n acts (csys s) \<Longrightarrow> composed_step pick head a s = Some s' \<Longrightarrow>
  sys_reach head n acts (csys s')"
  using composed_system [of pick head a s s'] by (auto intro: sys_next)

section \<open>The cases of a step\<close>

fun wait_arg :: "action \<Rightarrow> u32 option" where
  "wait_arg (Push m) = None"
| "wait_arg (WaitSize sz) = Some sz"
| "wait_arg WaitEmpty = Some 0"

lemma main_step_wait:
  "todo y = x # acts \<Longrightarrow> wait_arg x = Some sz \<Longrightarrow>
    main_step y = (if wait_size_ready (sq y) sz then Some (y\<lparr>todo := acts\<rparr>) else None)"
  by (cases x) (auto simp: main_step_def wait_size_0)

lemma composed_cases [consumes 1, case_names main_end main_push wait_over wait_sleep pop_sleep pop_go other wake_loader wake_main]:
  assumes "composed_step pick head a s = Some s'"
  obtains
    "a = MainT" "todo (csys s) = []" "\<not> complete (csys s)" "s' = s\<lparr>csys := csys s\<lparr>complete := True\<rparr>\<rparr>"
  | m acts dw dk where "a = MainT" "todo (csys s) = Push m # acts"
      "notify (pick (tick s)) (data_waiting (cmon s)) (data_woken (cmon s)) = (dw, dk)"
      "s' = \<lparr>csys = csys s\<lparr>todo := acts, sq := push (sq (csys s)) m, pushed := pushed (csys s) @ [m]\<rparr>,
        cmon = cmon s\<lparr>mon_queue := push (mon_queue (cmon s)) m, data_waiting := dw, data_woken := dk\<rparr>, tick = Suc (tick s)\<rparr>"
  | x acts sz where "a = MainT" "todo (csys s) = x # acts" "wait_arg x = Some sz" "wait_size_ready (sq (csys s)) sz"
      "(main_id s, sz) \<notin> set (empty_waiting (cmon s))"
      "s' = s\<lparr>csys := csys s\<lparr>todo := acts\<rparr>,
        cmon := cmon s\<lparr>empty_woken := remove1 (main_id s, sz) (empty_woken (cmon s))\<rparr>\<rparr>"
  | x acts sz where "a = MainT" "todo (csys s) = x # acts" "wait_arg x = Some sz" "\<not> wait_size_ready (sq (csys s)) sz"
      "(main_id s, sz) \<notin> set (empty_waiting (cmon s))"
      "s' = s\<lparr>cmon := cmon s\<lparr>empty_woken := remove1 (main_id s, sz) (empty_woken (cmon s)),
        empty_waiting := (main_id s, sz) # empty_waiting (cmon s)\<rparr>\<rparr>"
  | t where "a = LoaderT t" "t < length (pcs (csys s))" "pcs (csys s) ! t = AtPop" "t \<notin> set (data_waiting (cmon s))"
      "wait_and_pop (sq (csys s)) = None"
      "s' = s\<lparr>cmon := cmon s\<lparr>data_woken := remove1 t (data_woken (cmon s)), data_waiting := t # data_waiting (cmon s)\<rparr>\<rparr>"
  | t m q ew ek where "a = LoaderT t" "t < length (pcs (csys s))" "pcs (csys s) ! t = AtPop"
      "t \<notin> set (data_waiting (cmon s))" "wait_and_pop (sq (csys s)) = Some (m, q)"
      "notify (pick (tick s)) (empty_waiting (cmon s)) (empty_woken (cmon s)) = (ew, ek)"
      "s' = \<lparr>csys = (goto_pc (csys s) t (Busy m))\<lparr>sq := q, popped := popped (csys s) @ [m]\<rparr>,
        cmon = cmon s\<lparr>mon_queue := q, data_woken := remove1 t (data_woken (cmon s)), empty_waiting := ew, empty_woken := ek\<rparr>,
        tick = Suc (tick s)\<rparr>"
  | t y where "a = LoaderT t" "t < length (pcs (csys s))" "pcs (csys s) ! t \<noteq> AtPop"
      "loader_step head t (csys s) = Some y" "s' = s\<lparr>csys := y\<rparr>"
  | t where "a = SpuriousT t" "t \<in> set (data_waiting (cmon s))"
      "s' = s\<lparr>cmon := cmon s\<lparr>data_waiting := remove1 t (data_waiting (cmon s)), data_woken := t # data_woken (cmon s)\<rparr>\<rparr>"
  | t w ws where "a = SpuriousT t" "empty_waiting (cmon s) = w # ws"
      "s' = s\<lparr>cmon := cmon s\<lparr>empty_waiting := ws, empty_woken := w # empty_woken (cmon s)\<rparr>\<rparr>"
proof (cases a)
  case MainT
  with assms have turn: "main_turn pick s = Some s'" by (simp add: composed_step_def)
  show thesis
  proof (cases "todo (csys s)")
    case Nil
    with turn MainT that(1) show thesis
      by (auto simp: main_turn_def main_step_def split: option.splits if_splits)
  next
    case (Cons x acts)
    show thesis
    proof (cases "wait_arg x")
      case None
      then obtain m where "x = Push m" by (cases x) auto
      with turn Cons MainT that(2) show thesis
        by (auto simp: main_turn_def main_push_def main_step_def Let_def split: prod.splits)
    next
      case (Some sz)
      then have "main_turn pick s = main_wait sz s" using Cons by (cases x) (simp_all add: main_turn_def)
      with turn MainT Cons Some that(3,4) show thesis
        by (auto simp: main_wait_def main_step_wait [OF Cons Some] Let_def split: if_splits)
    qed
  qed
next
  case (LoaderT t)
  with assms have go: "loader_go pick head t s = Some s'" by (simp add: composed_step_def)
  then have t: "t < length (pcs (csys s))" by (simp add: loader_go_def split: if_splits)
  show thesis
  proof (cases "pcs (csys s) ! t = AtPop")
    case True
    with go t have pop: "loader_pop pick head t s = Some s'" by (simp add: loader_go_def)
    show thesis
    proof (cases "wait_and_pop (sq (csys s))")
      case None
      with pop True t LoaderT that(5) show thesis
        by (auto simp: loader_pop_def loader_step_def Let_def split: if_splits)
    next
      case (Some mq)
      with pop True t LoaderT that(6) show thesis
        by (cases mq) (auto simp: loader_pop_def loader_step_def Let_def split: if_splits prod.splits)
    qed
  next
    case False
    with go t LoaderT that(7) show thesis by (auto simp: loader_go_def split: option.splits)
  qed
next
  case (SpuriousT t)
  with assms that(8,9) show thesis
    by (auto simp: composed_step_def wake_up_def Let_def split: if_splits list.splits)
qed

section \<open>The invariant\<close>

definition in_step :: "composed \<Rightarrow> bool" where
  "in_step s \<longleftrightarrow>
     mon_queue (cmon s) = sq (csys s) \<and>
     distinct (data_waiting (cmon s) @ data_woken (cmon s)) \<and>
     (\<forall>t \<in> set (data_waiting (cmon s) @ data_woken (cmon s)). t < main_id s \<and> pcs (csys s) ! t = AtPop) \<and>
     (\<forall>w \<in> set (empty_waiting (cmon s) @ empty_woken (cmon s)).
        \<exists>x acts sz. w = (main_id s, sz) \<and> todo (csys s) = x # acts \<and> wait_arg x = Some sz)"

definition composed_inv :: "pc \<Rightarrow> nat \<Rightarrow> action list \<Rightarrow> composed \<Rightarrow> bool" where
  "composed_inv head n acts s \<longleftrightarrow>
     fair_inv head n acts (csys s) \<and> mon_reach {n} (cmon s) \<and> in_step s"

lemma composed_inv_facts:
  assumes "composed_inv head n acts s"
  shows "main_id s = n" "size_inv n (cmon s)" "data_inv (cmon s)" "mon_queue (cmon s) = sq (csys s)"
  using assms size_inv_reach data_inv_reach
  by (auto simp: composed_inv_def in_step_def main_id_def fair_inv_def sys_inv_def)

text \<open>The main thread is not on either list of \<open>empty_cond\<close> unless it is in that very wait.\<close>

lemma empty_lists_only:
  assumes "in_step s" and "todo (csys s) = x # acts" and "wait_arg x = Some sz"
  shows "set (empty_waiting (cmon s) @ empty_woken (cmon s)) \<subseteq> {(main_id s, sz)}"
  using assms by (auto simp: in_step_def)

lemma empty_lists_none:
  assumes "in_step s" and "\<And>x acts. todo (csys s) = x # acts \<Longrightarrow> wait_arg x = None"
  shows "empty_waiting (cmon s) = [] \<and> empty_woken (cmon s) = []"
proof -
  have "set (empty_waiting (cmon s) @ empty_woken (cmon s)) = {}"
  proof (rule equals0I)
    fix w
    assume "w \<in> set (empty_waiting (cmon s) @ empty_woken (cmon s))"
    with assms(1) obtain x acts sz where "todo (csys s) = x # acts" "wait_arg x = Some sz"
      unfolding in_step_def by blast
    with assms(2) show False by simp
  qed
  then show ?thesis by simp
qed

lemma not_busy_main:
  assumes "in_step s" and "todo (csys s) = x # acts" and "wait_arg x = Some sz"
    and "(main_id s, sz) \<notin> set (empty_waiting (cmon s))" and "(main_id s, sz) \<notin> set (empty_woken (cmon s))"
  shows "\<not> busy (cmon s) (main_id s)"
proof -
  have "empty_waiting (cmon s) = [] \<and> empty_woken (cmon s) = []"
    using empty_lists_only [OF assms(1-3)] assms(4,5)
    by (cases "empty_waiting (cmon s)"; cases "empty_woken (cmon s)") auto
  with assms(1) show ?thesis by (auto simp: busy_def in_step_def)
qed

lemma not_busy_loader:
  assumes "in_step s" and "t < main_id s" and "t \<notin> set (data_waiting (cmon s))" and "t \<notin> set (data_woken (cmon s))"
  shows "\<not> busy (cmon s) t"
proof -
  have "fst ` set (empty_waiting (cmon s) @ empty_woken (cmon s)) \<subseteq> {main_id s}"
    using assms(1) by (auto simp: in_step_def)
  then have "t \<notin> fst ` set (empty_waiting (cmon s) @ empty_woken (cmon s))" using assms(2) by auto
  with assms(3,4) show ?thesis by (simp add: busy_def image_Un)
qed

text \<open>The composition adds no behaviour to the monitor of \<open>TsMonitor\<close>.\<close>

lemma composed_monitor:
  assumes "composed_step pick head a s = Some s'" and inv: "in_step s"
  shows "cmon s' = cmon s \<or> mon_step {main_id s} (cmon s) (cmon s')"
  using assms(1)
proof (cases rule: composed_cases)
  case (main_push m acts dw dk)
  then show ?thesis by (simp add: mon_step.do_push notify_ok)
next
  case (wait_over x acts sz)
  have ready: "wait_size_ready (mon_queue (cmon s)) sz" using wait_over inv by (simp add: in_step_def)
  show ?thesis
  proof (cases "(main_id s, sz) \<in> set (empty_woken (cmon s))")
    case True
    from mon_step.size_resume [OF this ready] wait_over show ?thesis by simp
  next
    case False
    with wait_over show ?thesis by (simp add: remove1_idem)
  qed
next
  case (wait_sleep x acts sz)
  have ready: "\<not> wait_size_ready (mon_queue (cmon s)) sz" using wait_sleep inv by (simp add: in_step_def)
  show ?thesis
  proof (cases "(main_id s, sz) \<in> set (empty_woken (cmon s))")
    case True
    from mon_step.size_again [OF this ready] wait_sleep show ?thesis by simp
  next
    case False
    from mon_step.size_block [OF _ not_busy_main [OF inv wait_sleep(2,3,5) False] ready, of "{main_id s}"] False wait_sleep
    show ?thesis by (simp add: remove1_idem)
  qed
next
  case (pop_sleep t)
  have none: "wait_and_pop (mon_queue (cmon s)) = None" using pop_sleep inv by (simp add: in_step_def)
  show ?thesis
  proof (cases "t \<in> set (data_woken (cmon s))")
    case True
    from mon_step.pop_again [OF this none] pop_sleep show ?thesis by simp
  next
    case False
    have "t < main_id s" using pop_sleep(2) by (simp add: main_id_def)
    from mon_step.pop_block [OF not_busy_loader [OF inv this pop_sleep(4) False] none] False pop_sleep
    show ?thesis by (simp add: remove1_idem)
  qed
next
  case (pop_go t m q ew ek)
  have some: "wait_and_pop (mon_queue (cmon s)) = Some (m, q)" using pop_go inv by (simp add: in_step_def)
  show ?thesis
  proof (cases "t \<in> set (data_woken (cmon s))")
    case True
    from mon_step.pop_resume [OF this some notify_ok [OF pop_go(6)]] pop_go show ?thesis by simp
  next
    case False
    have "t < main_id s" using pop_go(2) by (simp add: main_id_def)
    from mon_step.pop_now [OF not_busy_loader [OF inv this pop_go(4) False] some notify_ok [OF pop_go(6)]] False pop_go
    show ?thesis by (simp add: remove1_idem)
  qed
next
  case (wake_loader t)
  then show ?thesis by (simp add: mon_step.spurious_data)
next
  case (wake_main t w ws)
  then show ?thesis using mon_step.spurious_empty [of w "cmon s" "{main_id s}"] by simp
qed simp_all

lemma notify_lists:
  assumes "notify p ws wk = (ws', wk')"
  shows "set (ws' @ wk') = set (ws @ wk)" and "distinct (ws @ wk) \<Longrightarrow> distinct (ws' @ wk')"
proof -
  from notify_ok [OF assms]
  have "set (ws' @ wk') = set (ws @ wk) \<and> (distinct (ws @ wk) \<longrightarrow> distinct (ws' @ wk'))"
    by (cases rule: notify_one.cases) (auto dest: set_remove1_subset [THEN subsetD] simp: in_set_remove1)
  then show "set (ws' @ wk') = set (ws @ wk)" and "distinct (ws @ wk) \<Longrightarrow> distinct (ws' @ wk')" by blast+
qed

lemma loader_step_queue:
  assumes "loader_step head t y = Some y'" and "pcs y ! t \<noteq> AtPop" and "t < length (pcs y)"
  shows "sq y' = sq y \<and> todo y' = todo y \<and> length (pcs y') = length (pcs y) \<and> (\<forall>u. u \<noteq> t \<longrightarrow> pcs y' ! u = pcs y ! u)"
  using assms by (cases "pcs y ! t") (auto simp: loader_step_def)

lemma in_stepI:
  assumes "mon_queue (cmon s) = sq (csys s)" and "distinct (data_waiting (cmon s) @ data_woken (cmon s))"
    and "\<And>t. t \<in> set (data_waiting (cmon s) @ data_woken (cmon s)) \<Longrightarrow> t < main_id s \<and> pcs (csys s) ! t = AtPop"
    and "\<And>w. w \<in> set (empty_waiting (cmon s) @ empty_woken (cmon s)) \<Longrightarrow>
      \<exists>x acts sz. w = (main_id s, sz) \<and> todo (csys s) = x # acts \<and> wait_arg x = Some sz"
  shows "in_step s"
  using assms unfolding in_step_def by blast

lemma in_step_step:
  assumes "composed_step pick head a s = Some s'" and inv: "in_step s" and one: "size_inv (main_id s) (cmon s)"
  shows "in_step s'"
proof -
  have q: "mon_queue (cmon s) = sq (csys s)" and d: "distinct (data_waiting (cmon s) @ data_woken (cmon s))"
    and l: "\<And>t. t \<in> set (data_waiting (cmon s) @ data_woken (cmon s)) \<Longrightarrow> t < main_id s \<and> pcs (csys s) ! t = AtPop"
    and m: "\<And>w. w \<in> set (empty_waiting (cmon s) @ empty_woken (cmon s)) \<Longrightarrow>
      \<exists>x acts sz. w = (main_id s, sz) \<and> todo (csys s) = x # acts \<and> wait_arg x = Some sz"
    using inv unfolding in_step_def by blast+
  from assms(1) show ?thesis
  proof (cases rule: composed_cases)
    case main_end
    with q d l m show ?thesis by (intro in_stepI) (auto simp: main_id_def)
  next
    case (main_push x acts dw dk)
    have e: "empty_waiting (cmon s) = [] \<and> empty_woken (cmon s) = []"
      using empty_lists_none [OF inv] main_push(2) by simp
    note lists = notify_lists [OF main_push(3)]
    show ?thesis unfolding main_push(4)
      by (rule in_stepI) (use q d l e lists in \<open>auto simp: main_id_def\<close>)
  next
    case (wait_over x acts sz)
    have "set (empty_waiting (cmon s) @ empty_woken (cmon s)) \<subseteq> {(main_id s, sz)}"
      using empty_lists_only [OF inv wait_over(2,3)] .
    moreover have "length (empty_waiting (cmon s)) + length (empty_woken (cmon s)) \<le> 1" using one by (simp add: size_inv_def)
    ultimately have e: "empty_waiting (cmon s) = []" "remove1 (main_id s, sz) (empty_woken (cmon s)) = []"
      using wait_over(5) by (cases "empty_waiting (cmon s)"; cases "empty_woken (cmon s)"; auto)+
    show ?thesis unfolding wait_over(6)
      by (rule in_stepI) (use q d l e in \<open>auto simp: main_id_def\<close>)
  next
    case (wait_sleep x acts sz)
    have "set (remove1 (main_id s, sz) (empty_woken (cmon s))) \<subseteq> {(main_id s, sz)}"
      using empty_lists_only [OF inv wait_sleep(2,3)] set_remove1_subset by fastforce
    then have "set (empty_waiting (cmon s)) \<union> set (remove1 (main_id s, sz) (empty_woken (cmon s))) \<subseteq> {(main_id s, sz)}"
      using empty_lists_only [OF inv wait_sleep(2,3)] by simp
    then show ?thesis unfolding wait_sleep(6)
      by (intro in_stepI) (use q d l wait_sleep(2,3) in \<open>auto simp: main_id_def\<close>)
  next
    case (pop_sleep t)
    show ?thesis unfolding pop_sleep(6)
      by (rule in_stepI)
        (use q d l m pop_sleep(2-4) in \<open>auto simp: main_id_def dest: set_remove1_subset [THEN subsetD]\<close>)
  next
    case (pop_go t x y ew ek)
    have sub: "set (remove1 t (data_woken (cmon s))) \<subseteq> set (data_woken (cmon s))" by (rule set_remove1_subset)
    have l': "u < main_id s \<and> pcs (csys s) ! u = AtPop \<and> u \<noteq> t"
      if "u \<in> set (data_waiting (cmon s) @ remove1 t (data_woken (cmon s)))" for u
      using that d pop_go(4) sub l [of u] by auto
    have m': "\<exists>x acts sz. w = (main_id s, sz) \<and> todo (csys s) = x # acts \<and> wait_arg x = Some sz"
      if "w \<in> set (ew @ ek)" for w
      using that m unfolding notify_lists(1) [OF pop_go(6)] by blast
    have d': "distinct (data_waiting (cmon s) @ remove1 t (data_woken (cmon s)))" using d sub by auto
    show ?thesis unfolding pop_go(7)
    proof (rule in_stepI, goal_cases)
      case 1
      show ?case by simp
    next
      case 2
      show ?case using d' by simp
    next
      case (3 u)
      then show ?case using l' [of u] by (simp add: main_id_def)
    next
      case (4 w)
      then show ?case using m' [of w] by (simp add: main_id_def)
    qed
  next
    case (other t y)
    have keep: "sq y = sq (csys s)" "todo y = todo (csys s)" "length (pcs y) = length (pcs (csys s))"
      "\<And>u. u \<noteq> t \<Longrightarrow> pcs y ! u = pcs (csys s) ! u"
      using loader_step_queue [OF other(4,3,2)] by blast+
    have "u \<noteq> t" if "u \<in> set (data_waiting (cmon s) @ data_woken (cmon s))" for u
      using l [OF that] other(3) by blast
    with keep q d l m show ?thesis unfolding other(5)
      by (intro in_stepI) (auto simp: main_id_def)
  next
    case (wake_loader t)
    show ?thesis unfolding wake_loader(3)
      by (rule in_stepI)
        (use q d l m wake_loader(2) in \<open>auto simp: main_id_def dest: set_remove1_subset [THEN subsetD]\<close>)
  next
    case (wake_main t w ws)
    show ?thesis unfolding wake_main(3)
      by (rule in_stepI) (use q d l m wake_main(2) in \<open>auto simp: main_id_def\<close>)
  qed
qed

lemma fair_inv_sys_step: "sys_step head y y' \<Longrightarrow> fair_inv head n acts y \<Longrightarrow> fair_inv head n acts y'"
  by (auto simp: fair_inv_def intro: sys_inv_step)

lemma composed_inv_step:
  assumes "composed_step pick head a s = Some s'" and "composed_inv head n acts s"
  shows "composed_inv head n acts s'"
proof -
  have id: "main_id s = n" and inv: "in_step s" "fair_inv head n acts (csys s)" "mon_reach {n} (cmon s)"
    and one: "size_inv (main_id s) (cmon s)"
    using assms(2) composed_inv_facts [OF assms(2)] by (simp_all add: composed_inv_def)
  have "mon_reach {n} (cmon s')"
    using composed_monitor [OF assms(1) inv(1)] inv(3) unfolding id by (auto intro: mon_next)
  moreover have "fair_inv head n acts (csys s')"
    using composed_system [OF assms(1)] inv(2) by (auto intro: fair_inv_sys_step)
  ultimately show ?thesis using in_step_step [OF assms(1) inv(1) one] by (simp add: composed_inv_def)
qed

lemma composed_inv_init:
  assumes "0 < n" and "head_ok head"
  shows "composed_inv head n acts (composed_init head n acts)"
proof -
  have "in_step (composed_init head n acts)"
    by (simp add: in_step_def composed_init_def system_init_def monitor_init_def)
  moreover have "mon_reach {n} (cmon (composed_init head n acts))"
    using mon_start by (simp add: composed_init_def)
  moreover have "fair_inv head n acts (csys (composed_init head n acts))"
    using assms sys_inv_init by (simp add: fair_inv_def composed_init_def)
  ultimately show ?thesis by (simp add: composed_inv_def)
qed

section \<open>The messages get handled\<close>

definition cthreads :: "nat \<Rightarrow> cthread set" where
  "cthreads n = insert MainT (LoaderT ` {..<n})"

definition can_go :: "cthread \<Rightarrow> composed \<Rightarrow> bool" where
  "can_go a s \<longleftrightarrow>
     (case a of
        MainT \<Rightarrow> can_help None (csys s)
      | LoaderT t \<Rightarrow> can_help (Some t) (csys s) \<and> t \<notin> set (data_waiting (cmon s))
      | SpuriousT t \<Rightarrow> False)"

definition go_dist :: "cthread \<Rightarrow> composed \<Rightarrow> nat" where
  "go_dist a s = (case a of LoaderT t \<Rightarrow> pop_dist (Some t) (csys s) | _ \<Rightarrow> 0)"

definition cwork :: "composed \<Rightarrow> nat" where
  "cwork s = work_left (csys s)"

text \<open>Somebody is awake who can go on: this is where the two theorems on lost wake-ups come in.\<close>

lemma some_can_go:
  assumes inv: "composed_inv head n acts s" and "0 < cwork s"
  shows "\<exists>a \<in> cthreads n. can_go a s"
proof -
  note facts = composed_inv_facts [OF inv]
  have fair: "fair_inv head n acts (csys s)" and st: "in_step s" using inv by (simp_all add: composed_inv_def)
  have len: "length (pcs (csys s)) = n" using facts(1) by (simp add: main_id_def)
  obtain b where b: "b \<in> actors n" "can_help b (csys s)"
    using some_can_help [OF fair] assms(2) by (auto simp: cwork_def)
  show ?thesis
  proof (cases b)
    case None
    with b show ?thesis by (auto simp: cthreads_def can_go_def)
  next
    case (Some t)
    have t: "t < n" using b Some by (auto simp: actors_def)
    show ?thesis
    proof (cases "t \<in> set (data_waiting (cmon s))")
      case False
      with b Some t show ?thesis by (auto simp: cthreads_def can_go_def)
    next
      case True
      then have "pcs (csys s) ! t = AtPop" using st by (auto simp: in_step_def)
      with b Some have queued: "data_queue (sq (csys s)) \<noteq> []" by (auto simp: can_help_def)
      have "data_waiting (cmon s) \<noteq> []" using True by auto
      with facts(3,4) queued have "data_woken (cmon s) \<noteq> []" by (auto simp: data_inv_def)
      then obtain u where u: "u \<in> set (data_woken (cmon s))" using last_in_set by blast
      with st have "u < n" "pcs (csys s) ! u = AtPop" "u \<notin> set (data_waiting (cmon s))"
        using facts(1) by (auto simp: in_step_def)
      with queued len have "can_go (LoaderT u) s" by (simp add: can_go_def can_help_def)
      with \<open>u < n\<close> show ?thesis by (auto simp: cthreads_def)
    qed
  qed
qed

text \<open>What a step of the composition is in the system, and who may have gone to sleep.\<close>

fun actor_of :: "cthread \<Rightarrow> nat option" where
  "actor_of (LoaderT t) = Some t"
| "actor_of _ = None"

lemma composed_actor:
  assumes "composed_step pick head a s = Some s'"
  shows "csys s' = csys s \<or> a \<noteq> SpuriousT t \<and> actor_step head (actor_of a) (csys s) = Some (csys s')"
  using assms
proof (cases rule: composed_cases)
  case (wait_over x acts sz)
  then show ?thesis by (simp add: actor_step_def main_step_wait [OF wait_over(2,3)])
next
  case (pop_go t m q ew ek)
  then show ?thesis by (simp add: actor_step_def loader_step_def)
qed (simp_all add: actor_step_def main_step_def)

lemma asleep_step:
  assumes "composed_step pick head a s = Some s'"
  shows "set (data_waiting (cmon s')) \<subseteq> set (data_waiting (cmon s)) \<union> {t. a = LoaderT t}"
  using assms
proof (cases rule: composed_cases)
  case (main_push m acts dw dk)
  from notify_ok [OF main_push(3)] have "set dw \<subseteq> set (data_waiting (cmon s))"
    by (cases rule: notify_one.cases) (auto dest: set_remove1_subset [THEN subsetD])
  with main_push(4) show ?thesis by auto
qed (auto dest: set_remove1_subset [THEN subsetD])

text \<open>A thread that can go on does not go to sleep.\<close>

lemma can_go_step:
  assumes "composed_step pick head a s = Some s'" and "can_go a s" and "in_step s"
  shows "actor_step head (actor_of a) (csys s) = Some (csys s') \<and>
    (\<forall>t. a = LoaderT t \<longrightarrow> t \<notin> set (data_waiting (cmon s')))"
  using assms(1)
proof (cases rule: composed_cases)
  case (wait_over x acts sz)
  then show ?thesis by (simp add: actor_step_def main_step_wait [OF wait_over(2,3)])
next
  case (wait_sleep x acts sz)
  with assms(2) show ?thesis by (simp add: can_go_def can_help_def wait_size_ready_def)
next
  case (pop_sleep t)
  with assms(2) show ?thesis
    by (auto simp: can_go_def can_help_def wait_and_pop_def split: list.splits)
next
  case (pop_go t m q ew ek)
  then show ?thesis by (simp add: actor_step_def loader_step_def)
next
  case (other t y)
  with assms(2) show ?thesis by (simp add: actor_step_def can_go_def)
qed (use assms(2) in \<open>simp_all add: actor_step_def main_step_def can_go_def\<close>)

lemma can_go_moves:
  assumes "composed_inv head n acts s" and "can_go a s"
  shows "composed_step pick head a s \<noteq> None"
proof (cases a)
  case MainT
  with assms(2) have go: "todo (csys s) \<noteq> []" "data_queue (sq (csys s)) = []" by (simp_all add: can_go_def can_help_def)
  have "(main_id s, sz) \<notin> set (empty_waiting (cmon s))" for sz
    using composed_inv_facts [OF assms(1)] go(2) by (auto simp: size_inv_def)
  then have "main_wait sz s \<noteq> None" for sz by (simp add: main_wait_def Let_def split: option.splits)
  moreover have "main_push pick m s \<noteq> None" if "todo (csys s) = Push m # acts'" for m acts'
    using that by (simp add: main_push_def main_step_def Let_def split: prod.splits)
  ultimately have "main_turn pick s \<noteq> None"
    using go(1) by (cases "todo (csys s)") (auto simp: main_turn_def split: action.splits)
  with MainT show ?thesis by (simp add: composed_step_def)
next
  case (LoaderT t)
  with assms(2) have go: "t < length (pcs (csys s))" "t \<notin> set (data_waiting (cmon s))"
    "in_query (pcs (csys s) ! t) \<or> pcs (csys s) ! t \<noteq> Exited" by (auto simp: can_go_def can_help_def)
  then show ?thesis
    using LoaderT by (cases "pcs (csys s) ! t")
      (auto simp: composed_step_def loader_go_def loader_pop_def loader_step_def Let_def split: option.splits prod.splits)
qed (use assms(2) in \<open>simp add: can_go_def\<close>)

lemma composed_head: "composed_inv head n acts s \<Longrightarrow> head_ok head \<and> in_step s"
  by (simp add: composed_inv_def fair_inv_def)

lemma can_go_own:
  assumes "composed_inv head n acts s" and "can_go a s" and "composed_step pick head a s = Some s'"
  shows "cwork s' < cwork s \<or> cwork s' = cwork s \<and> can_go a s' \<and> go_dist a s' < go_dist a s"
proof -
  note own = can_go_step [OF assms(3,2)] composed_head [OF assms(1)]
  have step: "actor_step head (actor_of a) (csys s) = Some (csys s')" using own by blast
  show ?thesis
  proof (cases a)
    case MainT
    then show ?thesis
      using step_work [OF step] own assms(2) by (auto simp: cwork_def can_go_def can_help_def)
  next
    case (LoaderT t)
    then have awake: "t \<notin> set (data_waiting (cmon s'))" using own by blast
    show ?thesis
      using step_work [OF step] own assms(2) LoaderT awake
      by (auto simp: cwork_def can_go_def can_help_def go_dist_def pop_dist_def)
  qed (use assms(2) in \<open>simp add: can_go_def\<close>)
qed

lemma can_go_other:
  assumes "composed_inv head n acts s" and "can_go a s" and "b \<noteq> a" and "composed_step pick head b s = Some s'"
  shows "cwork s' < cwork s \<or> cwork s' = cwork s \<and> can_go a s' \<and> go_dist a s' \<le> go_dist a s"
proof -
  have awake: "\<forall>t. a = LoaderT t \<longrightarrow> t \<notin> set (data_waiting (cmon s'))"
    using asleep_step [OF assms(4)] assms(2,3) by (auto simp: can_go_def)
  from composed_actor [OF assms(4)] show ?thesis
  proof
    assume "csys s' = csys s"
    with assms(2) awake show ?thesis
      by (cases a) (simp_all add: cwork_def can_go_def go_dist_def)
  next
    assume act: "b \<noteq> SpuriousT 0 \<and> actor_step head (actor_of b) (csys s) = Some (csys s')"
    have head: "head_ok head" using composed_head [OF assms(1)] by simp
    from step_work [OF conjunct2 [OF act] head] show ?thesis
    proof
      assume same: "work_left (csys s') = work_left (csys s) \<and> todo (csys s') = todo (csys s) \<and> sq (csys s') = sq (csys s) \<and>
        (actor_of b = None \<and> todo (csys s) = [] \<and> pcs (csys s') = pcs (csys s) \<or>
          (\<exists>t p. actor_of b = Some t \<and> t < length (pcs (csys s)) \<and> pcs (csys s') = (pcs (csys s))[t := p] \<and>
            \<not> in_query (pcs (csys s) ! t) \<and> \<not> in_query p \<and>
            (data_queue (sq (csys s)) \<noteq> [] \<longrightarrow> p \<noteq> Exited \<and> to_pop p < to_pop (pcs (csys s) ! t))))"
      have other: "actor_of b = Some t \<Longrightarrow> b = LoaderT t" for t by (cases b) simp_all
      show ?thesis
        using same awake assms(2,3) other
        by (cases a) (auto simp: cwork_def can_go_def can_help_def go_dist_def pop_dist_def nth_list_update)
    qed (simp add: cwork_def)
  qed
qed

interpretation composing: ranked_system "composed_step pick head" "cthreads n" "composed_inv head n acts" cwork can_go go_dist
  for pick head n acts
proof
  fix a s s'
  assume step: "composed_step pick head a s = Some s'" and inv: "composed_inv head n acts s"
  show "composed_inv head n acts s'" by (rule composed_inv_step [OF step inv])
  show "cwork s' < cwork s \<or> cwork s' = cwork s \<and> can_go a s' \<and> go_dist a s' < go_dist a s" if "can_go a s"
    by (rule can_go_own [OF inv that step])
  show "cwork s' < cwork s \<or> cwork s' = cwork s \<and> can_go b s' \<and> go_dist b s' \<le> go_dist b s"
    if "can_go b s" "a \<noteq> b" for b
    by (rule can_go_other [OF inv that step])
  have "work_left (csys s') \<le> work_left (csys s)"
    using composed_actor [OF step] step_work [OF _ conjunct1 [OF composed_head [OF inv]]] by fastforce
  then show "cwork s' = 0" if "cwork s = 0" using that by (simp add: cwork_def)
qed (rule some_can_go can_go_moves; assumption)+

section \<open>The main thread gets to its join\<close>

definition chandled_inv :: "pc \<Rightarrow> nat \<Rightarrow> action list \<Rightarrow> composed \<Rightarrow> bool" where
  "chandled_inv head n acts s \<longleftrightarrow> composed_inv head n acts s \<and> cwork s = 0"

lemma chandled_facts:
  assumes "chandled_inv head n acts s"
  shows "todo (csys s) = []" "data_queue (sq (csys s)) = []" "mset (handled (csys s)) = mset (pushes acts)"
proof -
  from assms have left: "todo (csys s) = []" "data_queue (sq (csys s)) = []" "hands (pcs (csys s)) = {#}"
    by (simp_all add: chandled_inv_def cwork_def nobody_left)
  then show "todo (csys s) = []" "data_queue (sq (csys s)) = []" by blast+
  have "sys_inv n acts (csys s)" using assms by (simp add: chandled_inv_def composed_inv_def fair_inv_def)
  then have "popped (csys s) @ data_queue (sq (csys s)) @ pushes (todo (csys s)) = pushes acts"
    "mset (handled (csys s)) + hands (pcs (csys s)) = mset (popped (csys s))"
    by (auto simp: sys_inv_def simp flip: append_assoc)
  with left show "mset (handled (csys s)) = mset (pushes acts)" by simp
qed

lemma flag_composed:
  assumes "composed_step pick head a s = Some s'" and "chandled_inv head n acts s"
  shows "complete (csys s') \<or> complete (csys s') = complete (csys s) \<and> a \<noteq> MainT"
  using assms(1)
proof (cases rule: composed_cases)
  case (other t y)
  then show ?thesis
    using flag_step [of head "Some t" "csys s" y] by (auto simp: actor_step_def)
qed (use chandled_facts [OF assms(2)] in auto)

interpretation joining: ranked_system "composed_step pick head" "cthreads n" "chandled_inv head n acts"
    "\<lambda>s. flag_left (csys s)" "\<lambda>a s. a = MainT \<and> \<not> complete (csys s)" "\<lambda>a s. 0"
  for pick head n acts
proof
  fix a s s'
  assume step: "composed_step pick head a s = Some s'" and inv: "chandled_inv head n acts s"
  show "chandled_inv head n acts s'"
    using inv composing.inv_step [OF step, of n acts] composing.done_step [OF _ _ step, of n acts]
    by (auto simp: chandled_inv_def)
  note flag = flag_composed [OF step inv]
  show "flag_left (csys s') = 0" if "flag_left (csys s) = 0"
    using that flag by (auto simp: flag_left_def split: if_splits)
  show "flag_left (csys s') < flag_left (csys s) \<or> flag_left (csys s') = flag_left (csys s) \<and>
      (a = MainT \<and> \<not> complete (csys s')) \<and> (0::nat) < 0"
    if "a = MainT \<and> \<not> complete (csys s)" using that flag by (auto simp: flag_left_def)
  show "flag_left (csys s') < flag_left (csys s) \<or> flag_left (csys s') = flag_left (csys s) \<and>
      (b = MainT \<and> \<not> complete (csys s')) \<and> (0::nat) \<le> 0"
    if "b = MainT \<and> \<not> complete (csys s)" for b using that flag by (auto simp: flag_left_def)
next
  fix s
  assume "chandled_inv head n acts s" and "0 < flag_left (csys s)"
  then show "\<exists>a \<in> cthreads n. a = MainT \<and> \<not> complete (csys s)"
    by (simp add: flag_left_def cthreads_def split: if_splits)
next
  fix a s
  assume "chandled_inv head n acts s" and "a = MainT \<and> \<not> complete (csys s)"
  then show "composed_step pick head a s \<noteq> None"
    using chandled_facts(1) [of head n acts s] by (simp add: composed_step_def main_turn_def main_step_def)
qed

section \<open>Properties\<close>

text \<open>C20: The system of the loaders and the main thread, and the monitor of the queue, are two views of the
  same program. In every run of the program with its condition variables, whatever a notification
  picks, the shared state and the positions of the threads are those of a run of the system in which a
  blocked operation just waits, the sleepers and the queue are those of a run of the monitor with the
  main thread as its only \<open>wait_size\<close> caller, and both have the same queue; a sleeping loader is in the
  pop.\<close>

theorem composition_refines:
  assumes "head = AtDone \<or> head = AtPop" and "0 < n"
  shows "let s = run (composed_step pick head) sched (composed_init head n acts) k in
    sys_reach head n acts (csys s) \<and> mon_reach {n} (cmon s) \<and> mon_queue (cmon s) = sq (csys s) \<and>
    (\<forall>t \<in> set (data_waiting (cmon s)). pcs (csys s) ! t = AtPop)"
proof -
  let ?s = "run (composed_step pick head) sched (composed_init head n acts)"
  have "composed_inv head n acts (?s 0)"
    using composed_inv_init assms by (simp add: head_ok_def)
  from composing.inv_run [OF this le0, of k] have inv: "composed_inv head n acts (?s k)" .
  have "sys_reach head n acts (csys (?s k))"
    by (rule run_keeps [where k = 0 and P = "\<lambda>s. sys_reach head n acts (csys s)"])
      (auto simp: composed_init_def intro: sys_start composed_reach)
  with inv show ?thesis by (simp add: Let_def composed_inv_def in_step_def)
qed

lemma composition_refines_witness:
  "sys_reach AtDone 2 [] (csys (run (composed_step id AtDone) (\<lambda>k. MainT) (composed_init AtDone 2 []) 1))"
  using composition_refines [of AtDone 2 id "\<lambda>k. MainT" "[]" 1] by (simp add: Let_def)

text \<open>C6: The program with its mutex and condition variables comes to the end of its load. Whichever sleeping
  thread every \<open>notify_one\<close> picks, with any spurious wake-ups, and as long as the main thread and every
  loader keep getting turns, there is a moment from which on the preparer has done all its pushes and
  waits and set the completion flag, the queue is empty, and every message has been handled exactly
  once, for any number of loaders of any driver: no lost wake-up keeps anybody from the work.\<close>

theorem monitor_runs_end:
  assumes fair: "fair (cthreads n) sched" and "head = AtDone \<or> head = AtPop" and "0 < n"
  shows "\<exists>k. \<forall>j\<ge>k. let s = csys (run (composed_step pick head) sched (composed_init head n acts) j) in
    todo s = [] \<and> complete s \<and> data_queue (sq s) = [] \<and> mset (handled s) = mset (pushes acts)"
proof -
  have "composed_inv head n acts (run (composed_step pick head) sched (composed_init head n acts) 0)"
    using composed_inv_init assms(2,3) by (simp add: head_ok_def)
  from composing.work_gets_done [OF fair this] obtain i where
    "chandled_inv head n acts (run (composed_step pick head) sched (composed_init head n acts) i)"
    by (auto simp: chandled_inv_def)
  from joining.work_gets_done [OF fair this] obtain k where
    k: "\<And>j. k \<le> j \<Longrightarrow> chandled_inv head n acts (run (composed_step pick head) sched (composed_init head n acts) j) \<and>
      flag_left (csys (run (composed_step pick head) sched (composed_init head n acts) j)) = 0" by blast
  show ?thesis
  proof (intro exI allI impI)
    fix j
    assume "k \<le> j"
    note h = conjunct1 [OF k [OF this]] and c = conjunct2 [OF k [OF this]]
    show "let s = csys (run (composed_step pick head) sched (composed_init head n acts) j) in
      todo s = [] \<and> complete s \<and> data_queue (sq s) = [] \<and> mset (handled s) = mset (pushes acts)"
      using chandled_facts [OF h] c by (simp add: Let_def flag_left_def split: if_splits)
  qed
qed

definition two_threads :: "nat \<Rightarrow> cthread" where
  "two_threads k = (if even k then MainT else LoaderT 0)"

lemma monitor_runs_end_witness:
  "\<exists>k. mset (handled (csys (run (composed_step id AtPop) two_threads (composed_init AtPop 1 [Push default_message, WaitEmpty]) k)))
    = {#default_message#}"
proof -
  have "\<exists>j\<ge>k. two_threads j = MainT" "\<exists>j\<ge>k. two_threads j = LoaderT 0" for k
    by (intro exI [of _ "2 * k"] exI [of _ "Suc (2 * k)"]; simp add: two_threads_def)+
  then have "fair (cthreads 1) two_threads" by (auto simp: fair_def cthreads_def lessThan_Suc)
  from monitor_runs_end [OF this, of AtPop id "[Push default_message, WaitEmpty]"]
  show ?thesis by (auto simp: Let_def)
qed

end
