(* ===== verification/Metrics.thy ===== *)
theory Metrics
  imports Pareto
begin

text \<open>
  The metrics loop, which the \<open>InsertQuery\<close> of all three drivers contains: draw metric numbers until
  there are enough different ones, and for each new one draw a value and a count. \<open>keep\<close> is the
  range check (only the MySQL driver has one, because it draws from a normal distribution), \<open>emit\<close>
  what the driver does with a row. The draws are lists: \<open>ms\<close> the metric numbers, \<open>us\<close> the uniform
  draws of the Pareto generator, taken in the order of the code (value, then count). When a list is
  used up the result is \<^const>\<open>None\<close>; \<open>metric_loop_enough\<close> says how many draws suffice.
\<close>

record metric_row =
  row_metric :: int
  row_cnt :: int
  row_val :: real

text \<open>\<open>(v < 0.5 ? 0 : v)\<close>, with \<open>v = PGen->GetNext(0.0, Config::MaxValue)\<close>.\<close>

definition shown_value :: "pareto \<Rightarrow> real \<Rightarrow> real" where
  "shown_value pg u = (let v = GetNext_real pg 0 MaxValue u in if v < 1 / 2 then 0 else v)"

fun metric_loop ::
  "(int \<Rightarrow> bool) \<Rightarrow> pareto \<Rightarrow> ('a \<Rightarrow> metric_row \<Rightarrow> 'a) \<Rightarrow> nat \<Rightarrow> int list \<Rightarrow> int list \<Rightarrow> real list \<Rightarrow> 'a
   \<Rightarrow> ('a \<times> int list \<times> real list) option"
where
  "metric_loop keep pg emit cnt s [] us acc =
     (if length s < cnt then None else Some (acc, [], us))"
| "metric_loop keep pg emit cnt s (mc # ms) us acc =
     (if length s < cnt
      then if \<not> keep mc \<or> mc \<in> set s then metric_loop keep pg emit cnt s ms us acc
           else (case us of
                   u1 # u2 # us' \<Rightarrow>
                     metric_loop keep pg emit cnt (mc # s) ms us'
                       (emit acc \<lparr>row_metric = mc, row_cnt = GetNext_int pg MaxCnt 0 u2,
                                  row_val = shown_value pg u1\<rparr>)
                 | _ \<Rightarrow> None)
      else Some (acc, mc # ms, us))"

section \<open>The rows\<close>

definition row_ok :: "(int \<Rightarrow> bool) \<Rightarrow> metric_row \<Rightarrow> bool" where
  "row_ok keep r \<longleftrightarrow>
     keep (row_metric r) \<and> 1 \<le> row_cnt r \<and> row_cnt r \<le> MaxCnt \<and>
     (row_val r = 0 \<or> 1 / 2 \<le> row_val r \<and> row_val r \<le> MaxValue + 1)"

lemma shown_value_range:
  assumes "pareto_ok pg" and "0 \<le> u" and "u < 1"
  shows "shown_value pg u = 0 \<or> 1 / 2 \<le> shown_value pg u \<and> shown_value pg u \<le> MaxValue + 1"
  using GetNext_real_up [of pg 0 MaxValue u] assms by (auto simp: shown_value_def Let_def MaxValue_def)

lemma drawn_row_ok:
  assumes "pareto_ok pg" and "keep mc" and "0 \<le> u1" "u1 < 1" "0 \<le> u2" "u2 < 1"
  shows "row_ok keep \<lparr>row_metric = mc, row_cnt = GetNext_int pg MaxCnt 0 u2, row_val = shown_value pg u1\<rparr>"
  using assms shown_value_range [of pg u1] GetNext_int_down [of pg 0 MaxCnt u2]
  by (simp add: row_ok_def MaxCnt_def)

lemma metric_loop_rows_from:
  assumes "metric_loop keep pg emit cnt s ms us acc = Some (acc', ms', us')"
    and "pareto_ok pg" and "\<forall>u \<in> set us. 0 \<le> u \<and> u < 1" and "distinct s" and "length s \<le> cnt"
  shows "\<exists>rows. acc' = foldl emit acc rows \<and> length rows = cnt - length s \<and>
    distinct (map row_metric rows) \<and> set (map row_metric rows) \<inter> set s = {} \<and> (\<forall>r \<in> set rows. row_ok keep r)"
  using assms
proof (induction keep pg emit cnt s ms us acc rule: metric_loop.induct)
  case (1 keep pg emit cnt s us acc)
  then show ?case by (intro exI [of _ "[]"]) (simp split: if_splits)
next
  case (2 keep pg emit cnt s mc ms us acc)
  show ?case
  proof (cases "length s < cnt")
    case True
    show ?thesis
    proof (cases "\<not> keep mc \<or> mc \<in> set s")
      case skip: True
      with 2 True show ?thesis by simp
    next
      case new: False
      with 2(3) True obtain u1 u2 us2 where us: "us = u1 # u2 # us2" by (auto split: list.splits)
      let ?row = "\<lparr>row_metric = mc, row_cnt = GetNext_int pg MaxCnt 0 u2, row_val = shown_value pg u1\<rparr>"
      have rest: "metric_loop keep pg emit cnt (mc # s) ms us2 (emit acc ?row) = Some (acc', ms', us')"
        using 2(3) True new us by simp
      obtain rows where rows: "acc' = foldl emit (emit acc ?row) rows" "length rows = cnt - length (mc # s)"
        "distinct (map row_metric rows)" "set (map row_metric rows) \<inter> set (mc # s) = {}"
        "\<forall>r \<in> set rows. row_ok keep r"
      proof -
        have "\<forall>u \<in> set us2. 0 \<le> u \<and> u < 1" "distinct (mc # s)" "length (mc # s) \<le> cnt"
          using 2(5,6) new us True by auto
        from 2(2) [OF True new us refl rest 2(4) this] show thesis using that by blast
      qed
      have "row_ok keep ?row" using drawn_row_ok [of pg keep mc u1 u2] 2(4,5) new us by simp
      with rows True new show ?thesis by (intro exI [of _ "?row # rows"]) auto
    qed
  next
    case False
    with 2 show ?thesis by (intro exI [of _ "[]"]) simp
  qed
qed

lemma metric_loop_rows:
  assumes "metric_loop keep pg emit cnt [] ms us acc = Some (acc', ms', us')"
    and "pareto_ok pg" and "\<forall>u \<in> set us. 0 \<le> u \<and> u < 1"
  shows "\<exists>rows. acc' = foldl emit acc rows \<and> length rows = cnt \<and> distinct (map row_metric rows) \<and>
    (\<forall>r \<in> set rows. row_ok keep r)"
  using metric_loop_rows_from [OF assms] by auto

text \<open>The draws that are left are draws that were given.\<close>

lemma metric_loop_draws:
  "metric_loop keep pg emit cnt s ms us acc = Some (acc', ms', us') \<Longrightarrow> set us' \<subseteq> set us"
proof (induction keep pg emit cnt s ms us acc rule: metric_loop.induct)
  case (2 keep pg emit cnt s mc ms us acc)
  show ?case
  proof (cases "length s < cnt \<and> keep mc \<and> mc \<notin> set s")
    case new: True
    with 2(3) obtain u1 u2 us2 where us: "us = u1 # u2 # us2" by (auto split: list.splits)
    from 2(2) [OF _ _ us refl] 2(3) new us have "set us' \<subseteq> set us2" by simp
    with us show ?thesis by auto
  next
    case False
    with 2 show ?thesis by (auto split: if_splits)
  qed
qed (simp split: if_splits)

section \<open>Enough draws\<close>

lemma metric_loop_enough_from:
  assumes "distinct s" and "cnt \<le> card (set s \<union> set (filter keep ms))"
    and "2 * (cnt - length s) \<le> length us"
  shows "\<exists>r. metric_loop keep pg emit cnt s ms us acc = Some r"
  using assms
proof (induction keep pg emit cnt s ms us acc rule: metric_loop.induct)
  case (1 keep pg emit cnt s us acc)
  then show ?case by (simp add: distinct_card)
next
  case (2 keep pg emit cnt s mc ms us acc)
  show ?case
  proof (cases "length s < cnt")
    case True
    show ?thesis
    proof (cases "\<not> keep mc \<or> mc \<in> set s")
      case skip: True
      then have "set s \<union> set (filter keep (mc # ms)) = set s \<union> set (filter keep ms)" by auto
      with 2 True skip show ?thesis by simp
    next
      case new: False
      from 2(5) True have "2 \<le> length us" by linarith
      then obtain u1 u2 us2 where us: "us = u1 # u2 # us2"
        by (cases us; cases "tl us") auto
      have "set (mc # s) \<union> set (filter keep ms) = set s \<union> set (filter keep (mc # ms))" using new by auto
      with 2(4) have "cnt \<le> card (set (mc # s) \<union> set (filter keep ms))" by simp
      moreover have "distinct (mc # s)" "2 * (cnt - length (mc # s)) \<le> length us2"
        using 2(3,5) new us True by auto
      ultimately have "\<exists>r. metric_loop keep pg emit cnt (mc # s) ms us2
          (emit acc \<lparr>row_metric = mc, row_cnt = GetNext_int pg MaxCnt 0 u2, row_val = shown_value pg u1\<rparr>) = Some r"
        using 2(2) [OF True new us refl] by blast
      with True new us show ?thesis by simp
    qed
  qed simp
qed

lemma metric_loop_enough:
  "cnt \<le> card (set (filter keep ms)) \<Longrightarrow> 2 * cnt \<le> length us \<Longrightarrow>
   \<exists>r. metric_loop keep pg emit cnt [] ms us acc = Some r"
  using metric_loop_enough_from [of "[]" cnt keep ms us] by simp

end
