(* ===== verification/DriverCalls.thy ===== *)
theory DriverCalls
  imports GenericDriver TsQueue Metrics
begin

text \<open>
  What the queries of the drivers share: the objects a loader thread works on, the recording of a
  finished query in the latency histogram, the thread's sample and \<open>statQueue\<close>, the error path of the
  \<open>catch\<close> blocks, and the periodic display. The database is a type \<open>'db\<close>; how it executes a
  statement is a parameter (\<open>ctx_exec\<close>, \<open>ctx_query\<close>), as is whether a connection can be made (\<open>ctx_connect\<close>), and so are the measured times and the random
  draws of a call.
\<close>

section \<open>Objects and arguments\<close>

record 'db env =
  env_db :: 'db
  env_latency :: latency_stats
  env_sampled :: sampled_stats
  env_statQueue :: "stat_message tsqueue"
  env_csv :: string

record 'db ctx =
  ctx_driver :: generic_driver
  ctx_connect :: "generic_driver \<Rightarrow> 'db \<Rightarrow> unit res"
  ctx_exec :: "'db \<Rightarrow> string \<Rightarrow> 'db res"
  ctx_query :: "'db \<Rightarrow> string \<Rightarrow> nat res"
  ctx_sub_init :: "int list \<Rightarrow> int list \<Rightarrow> int list"
  ctx_fmt :: "real \<Rightarrow> string"

text \<open>Of one call: the microseconds from \<open>t0\<close> to \<open>t1\<close>, the milliseconds on the error path, and the
  draws that \<open>addStats\<close> may use.\<close>

record call_times =
  took_us :: int
  took_ms :: int
  draw_unif :: real
  draw_rand :: int

section \<open>The end of a query\<close>

definition record_latency ::
  "'db ctx \<Rightarrow> int \<Rightarrow> message_type \<Rightarrow> call_times \<Rightarrow> 'db env \<Rightarrow> 'db env res" where
  "record_latency ctx threadId ty c e =
     (if latencyStatsSet (ctx_driver ctx)
      then rbind (recordLatency (ctx_sub_init ctx) (env_latency e) threadId ty (took_us c)) (\<lambda>l.
           Inr (e\<lparr>env_latency := l\<rparr>))
      else Inr e)"

definition add_stats ::
  "'db ctx \<Rightarrow> message_type \<Rightarrow> int \<Rightarrow> bool \<Rightarrow> call_times \<Rightarrow> 'db env \<Rightarrow> 'db env res" where
  "add_stats ctx ty ms err c e =
     (if ostreamSet (ctx_driver ctx)
      then rbind (addStats (env_sampled e) ty ms err (draw_unif c) (draw_rand c)) (\<lambda>s.
           Inr (e\<lparr>env_sampled := s\<rparr>))
      else Inr e)"

definition push_stat :: "message_type \<Rightarrow> call_times \<Rightarrow> u32 \<Rightarrow> 'db env \<Rightarrow> 'db env" where
  "push_stat ty c cnt e =
     e\<lparr>env_statQueue := push (env_statQueue e) (StatMessage ty (word_of_int (took_us c)) cnt)\<rparr>"

text \<open>\<open>catch (sql::SQLException &e)\<close>; everything else passes through.\<close>

definition try_sql :: "'a res \<Rightarrow> 'a res \<Rightarrow> 'a res" where
  "try_sql body handler = (case body of Inl (SqlException what) \<Rightarrow> handler | _ \<Rightarrow> body)"

definition sql_error ::
  "'db ctx \<Rightarrow> message_type \<Rightarrow> call_times \<Rightarrow> string \<Rightarrow> 'db env \<Rightarrow> 'a res" where
  "sql_error ctx ty c what e =
     rbind (add_stats ctx ty (took_ms c) True c e) (\<lambda>_. Inl (RuntimeError what))"

definition transaction :: "'db ctx \<Rightarrow> string \<Rightarrow> 'db env \<Rightarrow> 'db env res" where
  "transaction ctx sql e =
     rbind (ctx_exec ctx (env_db e) ''BEGIN'') (\<lambda>db.
     rbind (ctx_exec ctx db sql) (\<lambda>db.
     rbind (ctx_exec ctx db ''COMMIT'') (\<lambda>db. Inr (e\<lparr>env_db := db\<rparr>))))"

lemma try_sql_Inr [simp]: "try_sql (Inr x) h = Inr x"
  by (simp add: try_sql_def)

lemma try_sql_exception [simp]: "try_sql (Inl (SqlException w)) h = h"
  by (simp add: try_sql_def)

section \<open>The periodic display\<close>

text \<open>
  After each message: when more than the display interval has passed, the lines of \<open>showStats\<close> are
  written, and the interval begins again.
\<close>

definition periodic_display ::
  "'db ctx \<Rightarrow> config \<Rightarrow> message_type list \<Rightarrow> int \<Rightarrow> 'db env \<times> int \<Rightarrow> ('db env \<times> int) res" where
  "periodic_display ctx cfg showStats endTime st =
     (let (e, lastDisplayTime) = st in
      if ostreamSet (ctx_driver ctx) \<and> endTime - lastDisplayTime > displayFreq cfg * 1000
      then rbind (displayStats_types (ctx_fmt ctx) True (env_sampled e) lastDisplayTime endTime showStats (env_csv e))
             (\<lambda>(s, out). Inr (e\<lparr>env_sampled := s, env_csv := out\<rparr>, endTime))
      else Inr st)"

definition final_display ::
  "'db ctx \<Rightarrow> message_type list \<Rightarrow> int \<Rightarrow> 'db env \<times> int \<Rightarrow> 'db env res" where
  "final_display ctx showStats endTime st =
     (let (e, lastDisplayTime) = st in
      if ostreamSet (ctx_driver ctx)
      then rbind (displayStats_types (ctx_fmt ctx) True (env_sampled e) lastDisplayTime endTime showStats (env_csv e))
             (\<lambda>(s, out). Inr (e\<lparr>env_sampled := s, env_csv := out\<rparr>))
      else Inr e)"

section \<open>The loop of a loader thread\<close>

text \<open>
  The messages one thread pops, with the times and draws of handling each and the clock reading
  after it; the draws for the queries are passed on from call to call.
\<close>

record arrival =
  ar_message :: message
  ar_call :: call_times
  ar_endTime :: int

fun loader_loop ::
  "(arrival \<Rightarrow> int list \<Rightarrow> real list \<Rightarrow> 's \<Rightarrow> ('s \<times> int list \<times> real list) res option)
   \<Rightarrow> arrival list \<Rightarrow> int list \<Rightarrow> real list \<Rightarrow> 's \<Rightarrow> ('s \<times> int list \<times> real list) res option"
where
  "loader_loop body [] ms us st = Some (Inr (st, ms, us))"
| "loader_loop body (a # as) ms us st =
     (case body a ms us st of
        None \<Rightarrow> None
      | Some (Inl e) \<Rightarrow> Some (Inl e)
      | Some (Inr (st, ms, us)) \<Rightarrow> loader_loop body as ms us st)"

text \<open>The object that a thread creates before its loop.\<close>

definition thread_env :: "config \<Rightarrow> int \<Rightarrow> 'db env \<Rightarrow> 'db env" where
  "thread_env cfg threadId e = e\<lparr>env_sampled := SampledStats threadId (cfg_maxsamples cfg)\<rparr>"

text \<open>The threads of a driver: \<open>LoaderThreads\<close> loaders, by their index.\<close>

definition loader_threads :: "config \<Rightarrow> message_type list \<Rightarrow> thread list" where
  "loader_threads cfg shown = map (\<lambda>i. InsertThread i shown) [0..<unat (LoaderThreads cfg)]"

definition loadStats :: "message_type list" where
  "loadStats = [InsertMetric]"

definition runStats :: "message_type list" where
  "runStats = [InsertMetric, DeleteDevice, Select_K1, Select_K2]"

end
