(* ===== verification/Queries.thy ===== *)
theory Queries
  imports DriverCalls SampledShape LatencyCsv
begin

text \<open>
  What the three drivers share in their proofs: the rows of the metrics loop, the sample of a finished
  query, the display of a loader, and the loop of a loader thread. The locale is the contract between
  a driver's handling of one message and the loop over the messages that a thread pops.
\<close>

section \<open>Arguments of a call\<close>

text \<open>What the arguments of a call must satisfy.\<close>

definition call_ok :: "call_times \<Rightarrow> bool" where
  "call_ok c \<longleftrightarrow>
     0 \<le> took_us c \<and> took_us c < 2147483648 * 1000 \<and> 0 \<le> took_ms c \<and> took_ms c < 2147483648 \<and>
     0 \<le> draw_unif c \<and> draw_unif c < 1 \<and> 0 \<le> draw_rand c"

text \<open>The sample of a thread grows only when there is a CSV stream.\<close>

definition sampled :: "'db ctx \<Rightarrow> sample_event list \<Rightarrow> sample_event list" where
  "sampled ctx evs = (if ostreamSet (ctx_driver ctx) then evs else [])"

lemma sampled_simps [simp]:
  "sampled ctx [] = []" "sampled ctx (xs @ ys) = sampled ctx xs @ sampled ctx ys"
  "length (sampled ctx xs) \<le> length xs"
  by (simp_all add: sampled_def)

lemma sampled_Cons: "sampled ctx (x # xs) = sampled ctx [x] @ sampled ctx xs"
  by (simp add: sampled_def)

definition sample_of :: "message_type \<Rightarrow> call_times \<Rightarrow> bool \<Rightarrow> int \<Rightarrow> sample_event" where
  "sample_of ty c err ms =
     \<lparr>ev_type = ty, ev_time = ms, ev_error = err, ev_u = draw_unif c, ev_r = draw_rand c\<rparr>"

lemma sample_of_ok:
  assumes "call_ok c" and "op_ord ty < MAX_OPTYPES"
  shows "sample_ok (sample_of ty c False (took_us c sdiv 1000))" and "sample_ok (sample_of ty c True (took_ms c))"
proof -
  have "took_us c sdiv 1000 = took_us c div 1000" using assms(1) by (simp add: sdiv_nonneg call_ok_def)
  moreover have "0 \<le> took_us c div 1000 \<and> took_us c div 1000 < 2147483648"
    using assms(1) unfolding call_ok_def by linarith
  ultimately show "sample_ok (sample_of ty c False (took_us c sdiv 1000))"
    using assms by (simp add: sample_ok_def sample_of_def call_ok_def)
  show "sample_ok (sample_of ty c True (took_ms c))"
    using assms by (simp add: sample_ok_def sample_of_def call_ok_def)
qed

section \<open>The rows of an insert\<close>

text \<open>Each driver collects something from every row, in a list.\<close>

lemma foldl_snoc_map: "foldl (\<lambda>xs r. xs @ [f r]) xs rows = xs @ map f rows"
  by (induction rows arbitrary: xs) simp_all

lemma metrics_count:
  assumes "pareto_ok pg" and "0 \<le> u" and "u < 1"
  shows "1 \<le> GetNext_int pg MaxMetricsPerTs 0 u" and "GetNext_int pg MaxMetricsPerTs 0 u \<le> 100"
  using GetNext_int_down [of pg 0 MaxMetricsPerTs u] assms by (simp_all add: MaxMetricsPerTs_def)

lemma metric_loop_list:
  assumes "metric_loop keep pg (\<lambda>xs r. xs @ [f r]) (nat (GetNext_int pg MaxMetricsPerTs 0 u)) [] ms us []
      = Some (xs, ms', us')"
    and "pareto_ok pg" and "\<forall>u \<in> set (u # us). 0 \<le> u \<and> u < 1"
  obtains rows where "xs = map f rows" and "1 \<le> length rows" and "length rows \<le> 100"
    and "distinct (map row_metric rows)" and "\<forall>x \<in> set rows. row_ok keep x"
    and "(word_of_int (GetNext_int pg MaxMetricsPerTs 0 u) :: u32) = of_nat (length rows)"
    and "set us' \<subseteq> set us"
proof -
  let ?cnt = "GetNext_int pg MaxMetricsPerTs 0 u"
  have us: "\<forall>u \<in> set us. 0 \<le> u \<and> u < 1" and cnt: "1 \<le> ?cnt" "?cnt \<le> 100"
    using assms(3) metrics_count [OF assms(2), of u] by simp_all
  obtain rows where rows: "xs = map f rows" "length rows = nat ?cnt" "distinct (map row_metric rows)"
    "\<forall>x \<in> set rows. row_ok keep x"
    using metric_loop_rows [OF assms(1,2) us] by (auto simp: foldl_snoc_map)
  show thesis
    using that [OF rows(1) _ _ rows(3,4) _ metric_loop_draws [OF assms(1)]] rows(2) cnt by simp
qed

section \<open>The sample of a finished query\<close>

lemma add_stats_ok:
  assumes "ss_repr mx smp (env_sampled e)" and "call_ok c" and ty: "op_ord ty < MAX_OPTYPES"
    and "0 \<le> mx" and "length smp < 2147483647"
  obtains s where "add_stats ctx ty (took_us c sdiv 1000) False c e = Inr (e\<lparr>env_sampled := s\<rparr>)"
    and "ss_repr mx (smp @ sampled ctx [sample_of ty c False (took_us c sdiv 1000)]) s"
proof (cases "ostreamSet (ctx_driver ctx)")
  case True
  let ?ev = "sample_of ty c False (took_us c sdiv 1000)"
  from assms obtain s where
    "addStats (env_sampled e) ty (took_us c sdiv 1000) False (draw_unif c) (draw_rand c) = Inr s" "ss_repr mx (smp @ [?ev]) s"
    using addStats_repr [of mx smp "env_sampled e" ?ev] sample_of_ok(1) [OF assms(2) ty] by (auto simp: sample_of_def)
  with True show thesis by (intro that [of s]) (simp_all add: add_stats_def sampled_def)
next
  case False
  with assms(1) show thesis by (intro that [of "env_sampled e"]) (simp_all add: add_stats_def sampled_def)
qed

section \<open>The display of a loader\<close>

text \<open>
  A loader may display every type that has a row, and without a CSV stream it displays nothing; the
  loaders of the MySQL and Cassandra run modes with a CSV stream are outside of this.
\<close>

definition displays :: "'db ctx \<Rightarrow> message_type list \<Rightarrow> bool" where
  "displays ctx shown \<longleftrightarrow> ostreamSet (ctx_driver ctx) \<longrightarrow> (\<forall>ty \<in> set shown. op_ord ty < MAX_OPTYPES)"

lemma displays_simps [simp]:
  "displays ctx loadStats" "displays ctx [InsertMetric, DeleteDevice]"
  "\<not> ostreamSet (ctx_driver ctx) \<Longrightarrow> displays ctx shown"
  by (simp_all add: displays_def loadStats_def MAX_OPTYPES_def)

lemma displayed_types:
  assumes "\<forall>ty \<in> set shown. op_ord ty < MAX_OPTYPES" and "ss_repr mx smp s" and "0 \<le> mx"
  shows "\<exists>s' l. displayStats_types fmt True s t0 t1 shown out = Inr (s', out @ l) \<and> ss_repr mx smp s'"
  using assms(1,2)
proof (induction shown arbitrary: s out)
  case Nil
  then show ?case by (simp add: displayStats_types_def)
next
  case (Cons ty shown)
  from Cons.prems(1) have i: "op_ord ty < MAX_OPTYPES" and rest: "\<forall>ty \<in> set shown. op_ord ty < MAX_OPTYPES" by simp_all
  obtain s1 l1 where s1: "displayStats fmt True s ty 0
      (min (maxsamples s) (opsSinceReset s ! op_ord ty)) t0 t1 out = Inr (s1, out @ l1)" "ss_repr mx smp s1"
    using display_one [OF Cons.prems(2) i assms(3)] by blast
  have "arr_get (opsSinceReset s) (int (op_ord ty)) = Inr (opsSinceReset s ! op_ord ty)"
    using Cons.prems(2) i by (simp add: ss_repr_def ss_dims_def arr_get_ok)
  with s1(1) have "displayStats_types fmt True s t0 t1 (ty # shown) out = displayStats_types fmt True s1 t0 t1 shown (out @ l1)"
    by (simp add: displayStats_types_def)
  with Cons.IH [OF rest s1(2), of "out @ l1"] show ?case by auto
qed

lemma periodic_shown:
  assumes "displays ctx shown" and "ss_repr mx smp (env_sampled e)" and "0 \<le> mx"
  shows "\<exists>s out t'. periodic_display ctx cfg shown endTime (e, t0) = Inr (e\<lparr>env_sampled := s, env_csv := out\<rparr>, t')
    \<and> ss_repr mx smp s"
proof -
  have same: "e = e\<lparr>env_sampled := env_sampled e, env_csv := env_csv e\<rparr>" by simp
  show ?thesis
  proof (cases "ostreamSet (ctx_driver ctx) \<and> displayFreq cfg * 1000 < endTime - t0")
    case True
    then have "\<forall>ty \<in> set shown. op_ord ty < MAX_OPTYPES" using assms(1) by (simp add: displays_def)
    from displayed_types [OF this assms(2,3)] obtain s l where
      "displayStats_types (ctx_fmt ctx) True (env_sampled e) t0 endTime shown (env_csv e) = Inr (s, env_csv e @ l)"
      "ss_repr mx smp s" by blast
    with True show ?thesis by (auto simp: periodic_display_def)
  next
    case False
    then have "periodic_display ctx cfg shown endTime (e, t0) = Inr (e, t0)"
      by (auto simp: periodic_display_def)
    with assms(2) same show ?thesis by metis
  qed
qed

lemma final_shown:
  assumes "displays ctx shown" and "ss_repr mx smp (env_sampled e)" and "0 \<le> mx"
  shows "\<exists>s out. final_display ctx shown endTime (e, t0) = Inr (e\<lparr>env_sampled := s, env_csv := out\<rparr>)
    \<and> ss_repr mx smp s"
proof -
  have same: "e = e\<lparr>env_sampled := env_sampled e, env_csv := env_csv e\<rparr>" by simp
  show ?thesis
  proof (cases "ostreamSet (ctx_driver ctx)")
    case True
    then have "\<forall>ty \<in> set shown. op_ord ty < MAX_OPTYPES" using assms(1) by (simp add: displays_def)
    from displayed_types [OF this assms(2,3)] obtain s l where
      "displayStats_types (ctx_fmt ctx) True (env_sampled e) t0 endTime shown (env_csv e) = Inr (s, env_csv e @ l)"
      "ss_repr mx smp s" by blast
    with True show ?thesis by (auto simp: final_display_def)
  next
    case False
    then have "final_display ctx shown endTime (e, t0) = Inr e" by (simp add: final_display_def)
    with assms(2) same show ?thesis by metis
  qed
qed

section \<open>The messages of a loader\<close>

text \<open>An insert message, and what a driver has to record for it: the sample, and the statistics message
  with the number \<open>k\<close> of rows.\<close>

definition insert_arrival :: "arrival \<Rightarrow> bool" where
  "insert_arrival a \<longleftrightarrow> op (ar_message a) = Insert \<and> call_ok (ar_call a)"

definition arrival_sample :: "arrival \<Rightarrow> sample_event" where
  "arrival_sample a = sample_of InsertMetric (ar_call a) False (took_us (ar_call a) sdiv 1000)"

definition arrival_stat :: "arrival \<Rightarrow> nat \<Rightarrow> stat_message" where
  "arrival_stat a k = StatMessage InsertMetric (word_of_int (took_us (ar_call a))) (of_nat k)"

text \<open>What the MongoDB and the Cassandra driver do after the write: sample, statistics message, display.\<close>

lemma record_arrival:
  fixes k :: nat
  assumes "ss_repr mx (sampled ctx (map arrival_sample as)) (env_sampled e)" and "insert_arrival a"
    and "length as < 2147483647" and mx: "0 \<le> mx"
    and shown: "displays ctx shown"
  obtains e' t' where
    "rbind (rbind (add_stats ctx InsertMetric (took_us (ar_call a) sdiv 1000) False (ar_call a) e) (\<lambda>e.
              Inr (push_stat InsertMetric (ar_call a) (of_nat k) e, ms, us)))
       (\<lambda>(e, ms, us). rbind (periodic_display ctx cfg shown (ar_endTime a) (e, t0)) (\<lambda>st. Inr (st, ms, us)))
     = Inr ((e', t'), ms, us)"
    and "ss_repr mx (sampled ctx (map arrival_sample (as @ [a]))) (env_sampled e')"
    and "env_db e' = env_db e" and "env_latency e' = env_latency e"
    and "data_queue (env_statQueue e') = data_queue (env_statQueue e) @ [arrival_stat a k]"
proof -
  let ?c = "ar_call a"
  have c: "call_ok ?c" and ty: "op_ord InsertMetric < MAX_OPTYPES"
    using assms(2) by (simp_all add: insert_arrival_def MAX_OPTYPES_def)
  have "length (sampled ctx (map arrival_sample as)) < 2147483647"
    using order_le_less_trans [OF sampled_simps(3) [of ctx "map arrival_sample as"], of 2147483647] assms(3) by simp
  from add_stats_ok [OF assms(1) c ty mx this] obtain s where
    s: "add_stats ctx InsertMetric (took_us ?c sdiv 1000) False ?c e = Inr (e\<lparr>env_sampled := s\<rparr>)"
      "ss_repr mx (sampled ctx (map arrival_sample as) @ sampled ctx [arrival_sample a]) s"
    by (auto simp: arrival_sample_def)
  let ?e = "push_stat InsertMetric ?c (of_nat k) (e\<lparr>env_sampled := s\<rparr>)"
  have "ss_repr mx (sampled ctx (map arrival_sample (as @ [a]))) (env_sampled ?e)" using s(2) by (simp add: push_stat_def)
  from periodic_shown [OF shown this mx] obtain s' out t'
    where p: "periodic_display ctx cfg shown (ar_endTime a) (?e, t0) = Inr (?e\<lparr>env_sampled := s', env_csv := out\<rparr>, t')"
      "ss_repr mx (sampled ctx (map arrival_sample (as @ [a]))) s'" by blast
  show thesis
    using s(1) p by (intro that [of "?e\<lparr>env_sampled := s', env_csv := out\<rparr>" t'])
      (simp_all add: push_stat_def push_def arrival_stat_def)
qed

text \<open>
  A driver that handles one message keeps \<open>holds\<close>, which relates the state of the thread to the
  messages so far and to what was written for each, or fails in a way that \<open>failed\<close> describes.
\<close>

locale handled_loop =
  fixes body :: "arrival \<Rightarrow> int list \<Rightarrow> real list \<Rightarrow> 's \<Rightarrow> ('s \<times> int list \<times> real list) res option"
    and holds :: "arrival list \<Rightarrow> 'w list \<Rightarrow> 's \<Rightarrow> bool"
    and failed :: "mb_error \<Rightarrow> bool"
  assumes handle_one: "holds as ws st \<Longrightarrow> insert_arrival a \<Longrightarrow> length as < 2147483647 \<Longrightarrow>
    \<forall>u \<in> set us. 0 \<le> u \<and> u < 1 \<Longrightarrow> body a ms us st = Some r \<Longrightarrow>
    (\<exists>x. r = Inl x \<and> failed x) \<or>
    (\<exists>w st' ms' us'. r = Inr (st', ms', us') \<and> holds (as @ [a]) (ws @ [w]) st' \<and> set us' \<subseteq> set us)"
begin

lemma handle_all:
  assumes "list_all insert_arrival bs" and "holds as ws st" and "length as + length bs \<le> 2147483647"
    and "\<forall>u \<in> set us. 0 \<le> u \<and> u < 1" and "loader_loop body bs ms us st = Some r"
  shows "(\<exists>x. r = Inl x \<and> failed x) \<or>
    (\<exists>ws' st' ms' us'. r = Inr (st', ms', us') \<and> holds (as @ bs) (ws @ ws') st')"
  using assms
proof (induction bs arbitrary: as ws st ms us)
  case Nil
  then show ?case by (intro disjI2 exI [of _ "[]"]) auto
next
  case (Cons a bs)
  from Cons.prems(5) obtain q where q: "body a ms us st = Some q" by (auto split: option.splits)
  have a: "insert_arrival a" and bs: "list_all insert_arrival bs" and len: "length as < 2147483647"
    and more: "length (as @ [a]) + length bs \<le> 2147483647"
    using Cons.prems(1,3) by simp_all
  from handle_one [OF Cons.prems(2) a len Cons.prems(4) q] show ?case
  proof (elim disjE exE conjE)
    fix w st' ms' us'
    assume b: "q = Inr (st', ms', us')" "holds (as @ [a]) (ws @ [w]) st'" "set us' \<subseteq> set us"
    have us': "\<forall>u \<in> set us'. 0 \<le> u \<and> u < 1" using b(3) Cons.prems(4) by blast
    have rest: "loader_loop body bs ms' us' st' = Some r" using Cons.prems(5) q b(1) by simp
    from Cons.IH [OF bs b(2) more us' rest] show ?thesis by (metis append.assoc append_Cons append_Nil)
  qed (use Cons.prems(5) q in auto)
qed

end

end
