(* ===== verification/MySQLDriver.thy ===== *)
theory MySQLDriver
  imports DriverCalls
begin

text \<open>
  \<open>MySQLDriver.hpp\<close> and \<open>MySQLDriver.cpp\<close>: the threads, the ranges read from the tables, the three
  queries and the schema. The statements are built as in the code, character by character; the
  console output of the error paths is left out.
\<close>

section \<open>Threads\<close>

definition MySQL_Prep :: "config \<Rightarrow> thread list" where
  "MySQL_Prep cfg = loader_threads cfg loadStats"

definition MySQL_Run :: "config \<Rightarrow> thread list" where
  "MySQL_Run cfg = loader_threads cfg runStats @ [SelectThread runStats]"

section \<open>Ranges\<close>

text \<open>
  \<open>connect\<close> is \<open>driver->connect\<close> with \<open>setSchema\<close> and \<open>createStatement\<close>: it succeeds or throws.
  \<open>query\<close> is \<open>executeQuery\<close> with the first row of its result. In the branch \<open>if (table_id)\<close> the code
  declares a new \<open>start_table\<close>, so the outer one stays 1.
\<close>

definition range_sql :: "nat \<Rightarrow> string" where
  "range_sql table =
     ''select unix_timestamp(min(ts)) as mints, unix_timestamp(max(ts)) as maxts from metrics'' @ show_nat table"

definition range_body ::
  "('db \<Rightarrow> string \<Rightarrow> (u64 \<times> u64) option res) \<Rightarrow> 'db \<Rightarrow> nat \<Rightarrow> ts_range \<Rightarrow> ts_range res" where
  "range_body query db table ret =
     rbind (query db (range_sql table)) (\<lambda>row.
     (let ret = (case row of
                   None \<Rightarrow> ret
                 | Some (mints, maxts) \<Rightarrow>
                     ret\<lparr>ts_min := min (ts_min ret) mints, ts_max := max (ts_max ret) maxts\<rparr>)
      in Inr (if ts_min ret = -1 then ret\<lparr>ts_min := 0\<rparr> else ret)))"

definition MySQL_getTimestampRange ::
  "(generic_driver \<Rightarrow> 'db \<Rightarrow> unit res) \<Rightarrow> ('db \<Rightarrow> string \<Rightarrow> (u64 \<times> u64) option res) \<Rightarrow> generic_driver
   \<Rightarrow> config \<Rightarrow> 'db \<Rightarrow> u32 \<Rightarrow> ts_range res" where
  "MySQL_getTimestampRange connect query g cfg db tab =
     rbind (connect g db) (\<lambda>_.
     (let start_table = 1;
          end_table = (if tab \<noteq> 0 then tab else DBTables cfg) in
      uint_loop start_table (unat end_table) (range_body query db)
        \<lparr>ts_min = StartTimestamp, ts_max = StartTimestamp\<rparr>))"

definition device_sql :: "ts_range \<Rightarrow> nat \<Rightarrow> string" where
  "device_sql tsRange table =
     ''SELECT min(device_id) mindev, max(device_id) maxdev FROM metrics'' @ show_nat table @
     (if ts_max tsRange > 0
      then '' WHERE ts >= from_unixtime('' @ show_word (ts_min tsRange) @ '') '' @
           '' AND ts <= from_unixtime('' @ show_word (ts_max tsRange) @ '')''
      else [])"

definition device_body ::
  "('db \<Rightarrow> string \<Rightarrow> (u32 \<times> u32) option res) \<Rightarrow> 'db \<Rightarrow> ts_range \<Rightarrow> nat \<Rightarrow> dev_range \<Rightarrow> dev_range res" where
  "device_body query db tsRange table ret =
     rbind (query db (device_sql tsRange table)) (\<lambda>row.
     Inr (case row of
            None \<Rightarrow> \<lparr>dev_min = 0, dev_max = 0\<rparr>
          | Some (mindev, maxdev) \<Rightarrow>
              \<lparr>dev_min = min (dev_min ret) mindev, dev_max = max (dev_max ret) maxdev\<rparr>))"

definition MySQL_getDeviceRange ::
  "(generic_driver \<Rightarrow> 'db \<Rightarrow> unit res) \<Rightarrow> ('db \<Rightarrow> string \<Rightarrow> (u32 \<times> u32) option res) \<Rightarrow> generic_driver
   \<Rightarrow> config \<Rightarrow> 'db \<Rightarrow> ts_range \<Rightarrow> u32 \<Rightarrow> dev_range res" where
  "MySQL_getDeviceRange connect query g cfg db tsRange tab =
     rbind (connect g db) (\<lambda>_.
     (let start_table = 1;
          end_table = (if tab \<noteq> 0 then tab else DBTables cfg) in
      uint_loop start_table (unat end_table) (device_body query db tsRange) \<lparr>dev_min = -1, dev_max = 0\<rparr>))"

section \<open>\<open>InsertQuery\<close>\<close>

definition in_range :: "int \<Rightarrow> bool" where
  "in_range mc \<longleftrightarrow> \<not> mc < 1 \<and> \<not> mc > MaxMetrics"

definition row_tuple :: "(real \<Rightarrow> string) \<Rightarrow> u32 \<Rightarrow> u32 \<Rightarrow> metric_row \<Rightarrow> string" where
  "row_tuple fmt timestamp dev r =
     ''(from_unixtime('' @ show_word timestamp @ ''), '' @ show_word dev @ '', '' @
     show_int (row_metric r) @ '','' @ show_int (row_cnt r) @ '','' @ fmt (row_val r) @ '')''"

definition upd_tuple :: "(real \<Rightarrow> string) \<Rightarrow> u32 \<Rightarrow> u32 \<Rightarrow> metric_row \<Rightarrow> string" where
  "upd_tuple fmt timestamp dev r =
     ''(from_unixtime(('' @ show_word timestamp @ '' div 300)*300), '' @ show_word dev @ '', '' @
     show_int (row_metric r) @ '','' @ show_int (row_cnt r) @ '','' @ fmt (row_val r) @ '')''"

text \<open>The two streams \<open>sql_val\<close> and \<open>sql_upd_val\<close>, and \<open>notfirst\<close>.\<close>

definition emit_sql ::
  "(real \<Rightarrow> string) \<Rightarrow> u32 \<Rightarrow> u32 \<Rightarrow> string \<times> string \<times> bool \<Rightarrow> metric_row \<Rightarrow> string \<times> string \<times> bool" where
  "emit_sql fmt timestamp dev st r =
     (let (sql_val, sql_upd_val, notfirst) = st;
          sep = (if notfirst then '','' else []) in
      (sql_val @ sep @ row_tuple fmt timestamp dev r,
       sql_upd_val @ sep @ upd_tuple fmt timestamp dev r, True))"

definition insert_sql :: "u32 \<Rightarrow> string \<Rightarrow> string" where
  "insert_sql tab sql_val =
     ''INSERT INTO metrics'' @ show_word tab @ '' (ts, device_id, metric_id, cnt, val ) VALUES '' @ sql_val"

text \<open>
  The first Pareto draw is the number of metrics (a negative number would never be reached by the
  size of the set). The result also has the draws that are left.
\<close>

definition MySQL_InsertQuery ::
  "'db ctx \<Rightarrow> call_times \<Rightarrow> int list \<Rightarrow> real list \<Rightarrow> int \<Rightarrow> u32 \<Rightarrow> u32 \<Rightarrow> u32 \<Rightarrow> 'db env
   \<Rightarrow> ('db env \<times> int list \<times> real list) res option"
where
  "MySQL_InsertQuery ctx c ms us threadId tab timestamp dev e =
     (case PGen (ctx_driver ctx) of
        None \<Rightarrow> Some (Inl UninitPointer)
      | Some pg \<Rightarrow>
          (case us of
             [] \<Rightarrow> None
           | u # us \<Rightarrow>
               (let metricsCnt = GetNext_int pg MaxMetricsPerTs 0 u in
                if metricsCnt < 0 then None
                else
                  (case metric_loop in_range pg (emit_sql (ctx_fmt ctx) timestamp dev) (nat metricsCnt)
                          [] ms us ([], [], False) of
                     None \<Rightarrow> None
                   | Some ((sql_val, sql_upd_val, notfirst), ms', us') \<Rightarrow>
                       Some (rbind
                         (try_sql
                           (rbind (transaction ctx (insert_sql tab sql_val) e) (\<lambda>e.
                            rbind (record_latency ctx threadId InsertMetric c e) (\<lambda>e.
                            rbind (add_stats ctx InsertMetric (took_us c sdiv 1000) False c e) (\<lambda>e.
                            Inr (push_stat InsertMetric c (word_of_int metricsCnt) e)))))
                           (sql_error ctx InsertMetric c ''Can't execute INSERT'' e))
                         (\<lambda>e. Inr (e, ms', us')))))))"

section \<open>\<open>DeleteQuery\<close>\<close>

definition delete_sql :: "u32 \<Rightarrow> u32 \<Rightarrow> u32 \<Rightarrow> string" where
  "delete_sql tab timestamp dev =
     ''DELETE FROM metrics'' @ show_word tab @ '' WHERE ts=from_unixtime('' @ show_word timestamp @ '')'' @
     '' AND device_id='' @ show_word dev"

definition MySQL_DeleteQuery ::
  "'db ctx \<Rightarrow> call_times \<Rightarrow> int \<Rightarrow> u32 \<Rightarrow> u32 \<Rightarrow> u32 \<Rightarrow> 'db env \<Rightarrow> 'db env res" where
  "MySQL_DeleteQuery ctx c threadId tab timestamp dev e =
     try_sql
       (rbind (transaction ctx (delete_sql tab timestamp dev) e) (\<lambda>e.
        rbind (record_latency ctx threadId DeleteDevice c e) (\<lambda>e.
        rbind (add_stats ctx DeleteDevice (took_us c sdiv 1000) False c e) (\<lambda>e.
        Inr (push_stat DeleteDevice c 1 e)))))
       (sql_error ctx DeleteDevice c ''Can't execute DELETE'' e)"

section \<open>\<open>SelectQuery\<close>\<close>

text \<open>\<open>drawn\<close> is \<open>std::round(dis(gen))\<close>, which the second query clamps.\<close>

definition select_sql :: "u32 \<Rightarrow> u32 \<Rightarrow> message_type \<Rightarrow> int \<Rightarrow> string" where
  "select_sql tab dev mt drawn =
     (case mt of
        Select_K1 \<Rightarrow>
          ''SELECT count(distinct metric_id) FROM metrics'' @ show_word tab @
          '', (select max(ts) mt from metrics'' @ show_word tab @ '') t1'' @
          '' WHERE ts >= DATE_SUB(t1.mt, INTERVAL 1 HOUR)'' @
          '' AND device_id='' @ show_word dev
      | Select_K2 \<Rightarrow>
          (let metric_id = drawn;
               metric_id = (if metric_id < 1 then 1 else metric_id);
               metric_id = (if metric_id > MaxMetrics then MaxMetrics else metric_id) in
           ''SELECT ts,device_id,val FROM metrics'' @ show_word tab @
           '', (select max(ts) mt from metrics'' @ show_word tab @ '') t1'' @
           '' WHERE ts >= DATE_SUB(t1.mt, INTERVAL 20 MINUTE)'' @
           '' AND metric_id='' @ show_int metric_id)
      | Select_K3 \<Rightarrow>
          ''SELECT device_id,metric_id,max(val) FROM metrics'' @ show_word tab @
          '', (select max(ts) mt from metrics'' @ show_word tab @ '') t1'' @
          '' WHERE ts = DATE_SUB(t1.mt, INTERVAL 1 MINUTE) and val >= 9900'' @
          '' GROUP BY 1,2 LIMIT 100''
      | _ \<Rightarrow> [])"

text \<open>The latency histogram is not updated here.\<close>

definition MySQL_SelectQuery ::
  "'db ctx \<Rightarrow> call_times \<Rightarrow> int \<Rightarrow> u32 \<Rightarrow> u32 \<Rightarrow> message_type \<Rightarrow> 'db env \<Rightarrow> 'db env res" where
  "MySQL_SelectQuery ctx c drawn tab dev mt e =
     try_sql
       (rbind (ctx_query ctx (env_db e) (select_sql tab dev mt drawn)) (\<lambda>rows.
        rbind (add_stats ctx mt (took_us c sdiv 1000) False c e) (\<lambda>e.
        Inr (push_stat mt c 1 e))))
       (sql_error ctx mt c ''Can't execute DELETE'' e)"

section \<open>The bodies of the threads\<close>

text \<open>
  \<open>InsertData\<close>: the switch on a popped message, and the display after it. The loop around it is
  \<open>loader_step AtDone\<close> in \<open>Loader\<close>. The state is the environment with \<open>lastDisplayTime\<close>.
\<close>

definition MySQL_handle ::
  "'db ctx \<Rightarrow> call_times \<Rightarrow> int list \<Rightarrow> real list \<Rightarrow> int \<Rightarrow> message \<Rightarrow> 'db env
   \<Rightarrow> ('db env \<times> int list \<times> real list) res option"
where
  "MySQL_handle ctx c ms us threadId m e =
     (case op m of
        Insert \<Rightarrow> MySQL_InsertQuery ctx c ms us threadId (table_id m) (ts m) (device_id m) e
      | Delete \<Rightarrow> Some (rbind (MySQL_DeleteQuery ctx c threadId (table_id m) (ts m) (device_id m) e)
                          (\<lambda>e. Inr (e, ms, us)))
      | _ \<Rightarrow> Some (Inr (e, ms, us)))"

definition MySQL_InsertData_body ::
  "'db ctx \<Rightarrow> config \<Rightarrow> message_type list \<Rightarrow> int \<Rightarrow> arrival \<Rightarrow> int list \<Rightarrow> real list
   \<Rightarrow> 'db env \<times> int \<Rightarrow> (('db env \<times> int) \<times> int list \<times> real list) res option"
where
  "MySQL_InsertData_body ctx cfg showStats threadId a ms us st =
     (case MySQL_handle ctx (ar_call a) ms us threadId (ar_message a) (fst st) of
        None \<Rightarrow> None
      | Some r \<Rightarrow>
          Some (rbind r (\<lambda>(e, ms, us).
                rbind (periodic_display ctx cfg showStats (ar_endTime a) (e, snd st)) (\<lambda>st.
                Inr (st, ms, us)))))"

text \<open>
  The whole thread, which connects, pops the messages of \<open>as\<close> and then leaves its loop. Nothing
  catches an exception of the thread's function.
\<close>

definition MySQL_InsertData ::
  "'db ctx \<Rightarrow> config \<Rightarrow> message_type list \<Rightarrow> int \<Rightarrow> int \<Rightarrow> arrival list \<Rightarrow> int \<Rightarrow> int list \<Rightarrow> real list
   \<Rightarrow> 'db env \<Rightarrow> 'db env res option"
where
  "MySQL_InsertData ctx cfg showStats threadId startTime as endTime ms us e =
     in_thread
       (case ctx_connect ctx (ctx_driver ctx) (env_db e) of
          Inl x \<Rightarrow> Some (Inl x)
        | Inr _ \<Rightarrow>
            (case loader_loop (MySQL_InsertData_body ctx cfg showStats threadId) as ms us
                    (thread_env cfg threadId e, startTime) of
               None \<Rightarrow> None
             | Some r \<Rightarrow> Some (rbind r (\<lambda>(st, ms, us). final_display ctx showStats endTime st))))"

text \<open>
  \<open>SelectData\<close>: one round of the loop. The device and the table are Pareto draws, the kind of query
  is \<open>kind\<close>, drawn from the three, and \<open>drawn\<close> the metric of the second kind.
\<close>

definition MySQL_SelectData_body ::
  "'db ctx \<Rightarrow> config \<Rightarrow> message_type list \<Rightarrow> call_times \<Rightarrow> int \<Rightarrow> real \<Rightarrow> real \<Rightarrow> message_type \<Rightarrow> int
   \<Rightarrow> 'db env \<times> int \<Rightarrow> ('db env \<times> int) res"
where
  "MySQL_SelectData_body ctx cfg showStats c endTime u1 u2 kind drawn st =
     (case PGen (ctx_driver ctx) of
        None \<Rightarrow> Inl UninitPointer
      | Some pg \<Rightarrow>
          (let dev = word_of_int (GetNext_int pg (sint (MaxDevices cfg)) 0 u1);
               tab = word_of_int (GetNext_int pg (sint (DBTables cfg)) 0 u2) in
           rbind (MySQL_SelectQuery ctx c drawn tab dev kind (fst st)) (\<lambda>e.
           periodic_display ctx cfg showStats endTime (e, snd st))))"

text \<open>
  The whole thread with the rounds of its loop, until it sees \<open>processingComplete\<close>. Its statistics
  have the thread number 0, as those of the first loader.
\<close>

record select_round =
  sr_call :: call_times
  sr_endTime :: int
  sr_device :: real
  sr_table :: real
  sr_kind :: message_type
  sr_metric :: int

definition MySQL_SelectData ::
  "'db ctx \<Rightarrow> config \<Rightarrow> message_type list \<Rightarrow> int \<Rightarrow> select_round list \<Rightarrow> int \<Rightarrow> 'db env \<Rightarrow> 'db env res option"
where
  "MySQL_SelectData ctx cfg showStats startTime rounds endTime e =
     in_thread (Some
       (rbind (ctx_connect ctx (ctx_driver ctx) (env_db e)) (\<lambda>_.
        rbind (rfold (\<lambda>r. MySQL_SelectData_body ctx cfg showStats (sr_call r) (sr_endTime r)
                            (sr_device r) (sr_table r) (sr_kind r) (sr_metric r))
                 rounds (thread_env cfg 0 e, startTime)) (\<lambda>st.
        final_display ctx showStats endTime st))))"

section \<open>\<open>CreateSchema\<close>\<close>

text \<open>The literal of the statement continues over source lines, with their indentation.\<close>

definition src_indent :: string where
  "src_indent = [CHR 0x09, CHR 0x09] @ ''    ''"

definition quote :: string where
  "quote = [CHR 0x27]"

definition create_sql :: "config \<Rightarrow> int \<Rightarrow> string" where
  "create_sql cfg table =
     ''CREATE TABLE metrics'' @ show_int table @
     '' (ts timestamp NOT NULL DEFAULT '' @ quote @ ''0000-00-00 00:00:00'' @ quote @ '','' @
     src_indent @ ''device_id int(10) unsigned NOT NULL,'' @
     src_indent @ ''metric_id int(10) unsigned NOT NULL,'' @
     src_indent @ ''cnt int(10) unsigned NOT NULL,'' @
     src_indent @ ''val double DEFAULT NULL,'' @
     src_indent @ ''PRIMARY KEY (device_id, metric_id, ts),'' @
     src_indent @ ''KEY k1 (device_id, ts, metric_id, val),'' @
     src_indent @ ''KEY k2 (metric_id, ts, val),'' @
     src_indent @ ''KEY k3 (ts, val)'' @
     src_indent @ '') ENGINE='' @ storageEngine cfg @ '' '' @ storageEngineExtra cfg @
     '' DEFAULT CHARSET=latin1;''"

definition drop_sql :: "int \<Rightarrow> string" where
  "drop_sql table = ''DROP TABLE IF EXISTS metrics'' @ show_int table"

definition MySQL_CreateSchema ::
  "(generic_driver \<Rightarrow> 'db \<Rightarrow> unit res) \<Rightarrow> ('db \<Rightarrow> string \<Rightarrow> 'db res) \<Rightarrow> generic_driver
   \<Rightarrow> config \<Rightarrow> 'db \<Rightarrow> 'db res" where
  "MySQL_CreateSchema connect exec g cfg db =
     rbind (connect g db) (\<lambda>_.
     try_sql
       (int_loop 1 (unat (DBTables cfg))
          (\<lambda>table db.
             rbind (exec db (drop_sql table)) (\<lambda>db.
             rbind (if preCreateStatement cfg \<noteq> [] then exec db (preCreateStatement cfg) else Inr db) (\<lambda>db.
             exec db (create_sql cfg table)))) db)
       (Inl (RuntimeError ''Can't create DB schema'')))"

section \<open>The driver\<close>

definition MySQLDriver ::
  "(generic_driver \<Rightarrow> 'db \<Rightarrow> unit res) \<Rightarrow> ('db \<Rightarrow> string \<Rightarrow> 'db res)
   \<Rightarrow> ('db \<Rightarrow> string \<Rightarrow> (u64 \<times> u64) option res) \<Rightarrow> generic_driver \<Rightarrow> 'db driver" where
  "MySQLDriver connect exec query g =
     \<lparr>drv_CreateSchema = MySQL_CreateSchema connect exec g, drv_Prep = MySQL_Prep, drv_Run = MySQL_Run,
      drv_getTimestampRange = MySQL_getTimestampRange connect query g\<rparr>"

end
