(* ===== verification/MySQLFacts.thy ===== *)
theory MySQLFacts
  imports MySQLDriver Queries
begin

text \<open>
  The MySQL driver: the ranges it reports, the statements it executes and what a query leaves in the
  statistics, on the successful and on the failing path.
\<close>

section \<open>The timestamp range\<close>

text \<open>With a row from every table, the loop is a minimum and a maximum.\<close>

definition tables_visited :: "config \<Rightarrow> u32 \<Rightarrow> nat" where
  "tables_visited cfg tab = unat (if tab \<noteq> 0 then tab else DBTables cfg)"

definition range_step :: "(nat \<Rightarrow> u64 \<times> u64) \<Rightarrow> nat \<Rightarrow> ts_range \<Rightarrow> ts_range" where
  "range_step rows j r = r\<lparr>ts_min := min (ts_min r) (fst (rows j)), ts_max := max (ts_max r) (snd (rows j))\<rparr>"

lemma range_fold:
  "ts_min (fold (range_step rows) js r) = Min (insert (ts_min r) ((fst \<circ> rows) ` set js)) \<and>
   ts_max (fold (range_step rows) js r) = Max (insert (ts_max r) ((snd \<circ> rows) ` set js))"
proof (induction js arbitrary: r)
  case (Cons j js)
  have "Min (insert (min (ts_min r) (fst (rows j))) ((fst \<circ> rows) ` set js))
          = Min (insert (ts_min r) (insert (fst (rows j)) ((fst \<circ> rows) ` set js)))"
    by (cases "js = []") (simp_all add: min.assoc)
  moreover have "Max (insert (max (ts_max r) (snd (rows j))) ((snd \<circ> rows) ` set js))
          = Max (insert (ts_max r) (insert (snd (rows j)) ((snd \<circ> rows) ` set js)))"
    by (cases "js = []") (simp_all add: max.assoc)
  ultimately show ?case using Cons.IH [of "range_step rows j r"] by (simp add: range_step_def)
qed simp

text \<open>The lower end never rises above \<open>StartTimestamp\<close>, so the sentinel is never seen.\<close>

lemma range_rfold:
  assumes "\<And>j. j \<in> set js \<Longrightarrow> query db (range_sql j) = Inr (Some (rows j))" and "ts_min r \<le> StartTimestamp"
  shows "rfold (range_body query db) js r = Inr (fold (range_step rows) js r)"
  using assms
proof (induction js arbitrary: r)
  case (Cons j js)
  have le: "ts_min (range_step rows j r) \<le> StartTimestamp"
    using Cons.prems(2) by (simp add: range_step_def min.coboundedI1)
  then have "ts_min (range_step rows j r) \<noteq> -1" by (auto simp: StartTimestamp_def word_order.extremum_unique)
  with Cons le show ?case by (simp add: range_body_def range_step_def case_prod_beta Let_def)
qed simp

lemma MySQL_range_eq:
  assumes "connect g db = Inr ()" and "tables_visited cfg tab < 4294967295"
    and "\<And>j. 1 \<le> j \<Longrightarrow> j \<le> tables_visited cfg tab \<Longrightarrow> query db (range_sql j) = Inr (Some (rows j))"
  shows "MySQL_getTimestampRange connect query g cfg db tab = Inr
    (fold (range_step rows) [1..<Suc (tables_visited cfg tab)] \<lparr>ts_min = StartTimestamp, ts_max = StartTimestamp\<rparr>)"
  unfolding MySQL_getTimestampRange_def Let_def tables_visited_def [symmetric]
    uint_loop_eq_rfold [OF assms(2)] assms(1) rbind_Inr
  by (rule range_rfold) (use assms(3) in auto)

text \<open>In any case the upper end does not fall below \<open>StartTimestamp\<close>.\<close>

lemma MySQL_range_max:
  assumes "MySQL_getTimestampRange connect query g cfg db tab = Inr r"
  shows "StartTimestamp \<le> ts_max r"
proof -
  have step: "StartTimestamp \<le> ts_max t" if "StartTimestamp \<le> ts_max s" "range_body query db i s = Inr t" for i s and t :: ts_range
    using that by (auto simp: range_body_def rbind_eq_Inr Let_def max.coboundedI1 split: if_splits option.splits)
  have "uint_loop 1 (unat (if tab \<noteq> 0 then tab else DBTables cfg)) (range_body query db)
          \<lparr>ts_min = StartTimestamp, ts_max = StartTimestamp\<rparr> = Inr r"
    using assms unfolding MySQL_getTimestampRange_def Let_def by (auto simp: rbind_eq_Inr)
  from uint_loop_invariant [where P = "\<lambda>s. StartTimestamp \<le> ts_max s", OF step _ this] show ?thesis by simp
qed

interpretation mysql_range: range_provider "MySQL_getTimestampRange connect query g"
  by unfold_locales (rule MySQL_range_max)

text \<open>C31: The MySQL driver's range over existing timestamps is exact up to two clamps. It is the minimum and
  the maximum over the visited tables, but never above, respectively below, \<open>StartTimestamp\<close>, so the
  lower end does not follow the data; and asked for one table it visits all tables up to it, because
  the variable that should hold the first table is declared anew.\<close>

theorem mysql_range_exact:
  assumes "connect g db = Inr ()" and "tables_visited cfg tab < 4294967295"
    and "\<And>j. 1 \<le> j \<Longrightarrow> j \<le> tables_visited cfg tab \<Longrightarrow> query db (range_sql j) = Inr (Some (rows j))"
  shows "MySQL_getTimestampRange connect query g cfg db tab = Inr
    \<lparr>ts_min = Min (insert StartTimestamp ((fst \<circ> rows) ` {1..tables_visited cfg tab})),
     ts_max = Max (insert StartTimestamp ((snd \<circ> rows) ` {1..tables_visited cfg tab}))\<rparr>"
proof -
  let ?r = "\<lparr>ts_min = StartTimestamp, ts_max = StartTimestamp\<rparr>"
  have "set [1..<Suc (tables_visited cfg tab)] = {1..tables_visited cfg tab}" by auto
  with range_fold [of rows "[1..<Suc (tables_visited cfg tab)]" ?r] show ?thesis
    using MySQL_range_eq [of connect g db cfg tab query rows] assms by simp
qed

lemma mysql_range_exact_witness:
  "MySQL_getTimestampRange (\<lambda>g db. Inr ()) (\<lambda>db s. Inr (Some (if s = range_sql 1 then (1000000000, 2000000000)
       else (1100000000, 1200000000)))) (GenericDriver [] [] [] []) default_config () 2
     = Inr \<lparr>ts_min = StartTimestamp, ts_max = 2000000000\<rparr>"
proof -
  let ?q = "\<lambda>(db :: unit) s. Inr (Some (if s = range_sql 1 then (1000000000, 2000000000)
       else (1100000000, 1200000000))) :: (u64 \<times> u64) option res"
  let ?rows = "\<lambda>j. if range_sql j = range_sql 1 then (1000000000, 2000000000) else (1100000000, 1200000000) :: u64 \<times> u64"
  have n: "tables_visited default_config 2 = 2" by (simp add: tables_visited_def)
  have ne: "range_sql 2 \<noteq> range_sql 1" by (simp add: range_sql_def show_nat.simps digit_def)
  have "{1..2 :: nat} = {1, 2}" by auto
  with mysql_range_exact [of "\<lambda>g db. Inr ()" "GenericDriver [] [] [] []" "()" default_config 2 ?q ?rows] n ne show ?thesis
    by (simp add: StartTimestamp_def min_def max_def)
qed

section \<open>The range of the devices\<close>

text \<open>
  A table without a row sets both ends to 0. After the last of them the upper end is the maximum over
  the tables that follow; the lower end stays 0.
\<close>

definition after_last_empty :: "(nat \<Rightarrow> (u32 \<times> u32) option) \<Rightarrow> nat list \<Rightarrow> nat list" where
  "after_last_empty rows js = rev (takeWhile (\<lambda>j. rows j \<noteq> None) (rev js))"

definition device_range :: "(nat \<Rightarrow> (u32 \<times> u32) option) \<Rightarrow> nat list \<Rightarrow> dev_range" where
  "device_range rows js =
     \<lparr>dev_min = (if list_all (\<lambda>j. rows j \<noteq> None) js then Min (insert (-1) (set (map (fst \<circ> the \<circ> rows) js))) else 0),
      dev_max = Max (insert 0 (set (map (snd \<circ> the \<circ> rows) (after_last_empty rows js))))\<rparr>"

lemma Min_top_insert: "finite A \<Longrightarrow> Min (insert (-1) (insert y A)) = min (Min (insert (-1) A)) y" for y :: u32
  by (subst insert_commute, subst Min_insert) (simp_all only: min.commute finite_insert insert_not_empty not_False_eq_True)

lemma Max_bot_insert: "finite A \<Longrightarrow> Max (insert 0 (insert y A)) = max (Max (insert 0 A)) y" for y :: u32
  by (subst insert_commute, subst Max_insert) (simp_all only: max.commute finite_insert insert_not_empty not_False_eq_True)

lemma device_range_snoc:
  "device_range rows (js @ [j]) =
     (case rows j of
        None \<Rightarrow> \<lparr>dev_min = 0, dev_max = 0\<rparr>
      | Some (mindev, maxdev) \<Rightarrow>
          \<lparr>dev_min = min (dev_min (device_range rows js)) mindev, dev_max = max (dev_max (device_range rows js)) maxdev\<rparr>)"
proof (cases "rows j")
  case (Some row)
  let ?all = "list_all (\<lambda>j. rows j \<noteq> None)"
  have "Min (insert (-1) (set (map (fst \<circ> the \<circ> rows) (js @ [j])))) =
      min (Min (insert (-1) (set (map (fst \<circ> the \<circ> rows) js)))) (fst row)"
    using Some Min_top_insert [of "set (map (fst \<circ> the \<circ> rows) js)" "fst row"] by simp
  then have "dev_min (device_range rows (js @ [j])) = min (dev_min (device_range rows js)) (fst row)"
    using Some by (cases "?all js") (simp_all add: device_range_def del: set_map)
  moreover have "after_last_empty rows (js @ [j]) = after_last_empty rows js @ [j]"
    using Some by (simp add: after_last_empty_def)
  then have "dev_max (device_range rows (js @ [j])) = max (dev_max (device_range rows js)) (snd row)"
    using Some Max_bot_insert [of "set (map (snd \<circ> the \<circ> rows) (after_last_empty rows js))" "snd row"]
    by (simp add: device_range_def)
  ultimately show ?thesis using Some by (simp add: case_prod_beta)
qed (simp add: device_range_def after_last_empty_def)

lemma device_rfold:
  assumes "\<And>j. j \<in> set js \<Longrightarrow> query db (device_sql tsRange j) = Inr (rows j)"
  shows "rfold (device_body query db tsRange) js \<lparr>dev_min = -1, dev_max = 0\<rparr> = Inr (device_range rows js)"
  using assms
proof (induction js rule: rev_induct)
  case Nil
  show ?case by (simp add: device_range_def after_last_empty_def)
next
  case (snoc j js)
  then show ?case by (simp add: rfold_append device_body_def device_range_snoc)
qed

text \<open>The MySQL driver's range over the existing device numbers: over the tables up to the one asked for, or
  all of them, the smallest and the largest number that the server reports; a table for which it
  reports nothing makes the lower end 0 and hides the tables before it from the upper end.\<close>

theorem mysql_device_range_exact:
  assumes "connect g db = Inr ()" and "tables_visited cfg tab < 4294967295"
    and "\<And>j. 1 \<le> j \<Longrightarrow> j \<le> tables_visited cfg tab \<Longrightarrow> query db (device_sql tsRange j) = Inr (rows j)"
  shows "MySQL_getDeviceRange connect query g cfg db tsRange tab =
    Inr (device_range rows [1..<Suc (tables_visited cfg tab)])"
  unfolding MySQL_getDeviceRange_def Let_def tables_visited_def [symmetric]
    uint_loop_eq_rfold [OF assms(2)] assms(1) rbind_Inr
  by (rule device_rfold) (use assms(3) in auto)

lemma mysql_device_range_exact_witness:
  "MySQL_getDeviceRange (\<lambda>g db. Inr ()) (\<lambda>db s. Inr (Some (3, 8))) (GenericDriver [] [] [] []) default_config ()
     \<lparr>ts_min = 0, ts_max = 0\<rparr> 2 = Inr \<lparr>dev_min = 3, dev_max = 8\<rparr>"
proof -
  have "tables_visited default_config 2 = 2" by (simp add: tables_visited_def)
  moreover have "[Suc 0..<3] = [1, 2]" by (simp add: upt_rec)
  moreover have "\<not> (-1 :: u32) \<le> 3" by (simp add: word_le_nat_alt unsigned_minus_1_eq_mask mask_eq_exp_minus_1)
  ultimately show ?thesis
    using mysql_device_range_exact [of "\<lambda>g db. Inr ()" "GenericDriver [] [] [] []" "()" default_config 2
        "\<lambda>db s. Inr (Some (3, 8))" "\<lparr>ts_min = 0, ts_max = 0\<rparr>" "\<lambda>j. Some (3, 8)"]
    by (simp add: device_range_def after_last_empty_def min_def max_def)
qed

section \<open>The schema\<close>

definition schema_statements :: "config \<Rightarrow> string list" where
  "schema_statements cfg =
     concat (map (\<lambda>t. drop_sql t # (if preCreateStatement cfg \<noteq> [] then [preCreateStatement cfg] else []) @ [create_sql cfg t])
              [1..int (unat (DBTables cfg))])"

definition exec_all :: "('db \<Rightarrow> string \<Rightarrow> 'db res) \<Rightarrow> string list \<Rightarrow> 'db \<Rightarrow> 'db res" where
  "exec_all exec stmts db = rfold (\<lambda>s db. exec db s) stmts db"

lemma schema_exec:
  assumes "unat (DBTables cfg) < 2147483647"
  shows "MySQL_CreateSchema connect exec g cfg db =
    rbind (connect g db) (\<lambda>_.
    (case exec_all exec (schema_statements cfg) db of
       Inl (SqlException w) \<Rightarrow> Inl (RuntimeError ''Can't create DB schema'')
     | r \<Rightarrow> r))"
proof -
  let ?f = "\<lambda>table db. rbind (exec db (drop_sql table)) (\<lambda>db.
     rbind (if preCreateStatement cfg \<noteq> [] then exec db (preCreateStatement cfg) else Inr db) (\<lambda>db.
     exec db (create_sql cfg table)))"
  have "exec_all exec (drop_sql t # (if preCreateStatement cfg \<noteq> [] then [preCreateStatement cfg] else []) @ [create_sql cfg t]) db
      = ?f t db" for t db
    by (simp add: exec_all_def rfold_fun rbind_Inr_right)
  then have "exec_all exec (schema_statements cfg) db = rfold ?f [1..int (unat (DBTables cfg))] db"
    by (simp add: exec_all_def schema_statements_def rfold_concat)
  then have "int_loop 1 (unat (DBTables cfg)) ?f db = exec_all exec (schema_statements cfg) db"
    unfolding int_loop_eq_rfold [OF assms] by simp
  then show ?thesis
    unfolding MySQL_CreateSchema_def try_sql_def by (auto split: sum.splits mb_error.splits)
qed

text \<open>C32: Creating the MySQL schema executes, for each table in order, the drop, the configured statement
  when there is one, and the create, and nothing else; it stops at the first failure, and a failure
  of the database becomes the runtime error that \<open>main\<close> reports. A connection that cannot be made
  raises its own exception before that.\<close>

theorem mysql_schema_statements:
  assumes "unat (DBTables cfg) < 2147483647"
  shows "MySQL_CreateSchema connect exec g cfg db =
    rbind (connect g db) (\<lambda>_.
    (case exec_all exec (schema_statements cfg) db of
       Inl (SqlException w) \<Rightarrow> Inl (RuntimeError ''Can't create DB schema'')
     | r \<Rightarrow> r))"
  by (rule schema_exec [OF assms])

text \<open>A database that keeps the statements it executed.\<close>

definition log_exec :: "string list \<Rightarrow> string \<Rightarrow> string list res" where
  "log_exec db s = Inr (db @ [s])"

lemma exec_all_log: "exec_all log_exec stmts db = Inr (db @ stmts)"
  by (induction stmts arbitrary: db) (simp_all add: exec_all_def log_exec_def)

lemma mysql_schema_statements_witness:
  "MySQL_CreateSchema (\<lambda>g db. Inr ()) log_exec (GenericDriver [] [] [] []) (default_config\<lparr>DBTables := 2, preCreateStatement := ''SET x''\<rparr>) [] =
     (let cfg = default_config\<lparr>DBTables := 2, preCreateStatement := ''SET x''\<rparr> in
      Inr [drop_sql 1, ''SET x'', create_sql cfg 1, drop_sql 2, ''SET x'', create_sql cfg 2])"
proof -
  have "[1..2 :: int] = [1, 2]" by (simp add: upto.simps)
  then show ?thesis
    using mysql_schema_statements [of "default_config\<lparr>DBTables := 2, preCreateStatement := ''SET x''\<rparr>"
      "\<lambda>g db. Inr ()" log_exec "GenericDriver [] [] [] []" "[]"]
    by (simp add: exec_all_log schema_statements_def default_config_def Let_def)
qed

section \<open>The insert statement\<close>

lemma emit_sql_fold:
  "foldl (emit_sql fmt tim dev) ([], [], False) rows
    = (join '','' (map (row_tuple fmt tim dev) rows), join '','' (map (upd_tuple fmt tim dev) rows), rows \<noteq> [])"
proof (induction rows rule: rev_induct)
  case (snoc r rows)
  then show ?case by (simp add: emit_sql_def Let_def join_snoc)
qed simp

text \<open>What the driver and the objects of the thread must satisfy.\<close>

definition driver_ok :: "'db ctx \<Rightarrow> pareto \<Rightarrow> bool" where
  "driver_ok ctx pg \<longleftrightarrow>
     PGen (ctx_driver ctx) = Some pg \<and> pareto_ok pg \<and> latencyStatsSet (ctx_driver ctx) \<and>
     deep_copy (ctx_sub_init ctx)"

definition env_repr :: "nat \<Rightarrow> int \<Rightarrow> latency_event list \<Rightarrow> sample_event list \<Rightarrow> 'db env \<Rightarrow> bool" where
  "env_repr n mx lat smp e \<longleftrightarrow>
     ls_repr n lat (env_latency e) \<and> ss_repr mx smp (env_sampled e) \<and> 0 \<le> mx \<and> length smp < 2147483647"

text \<open>A finished query in the two statistics.\<close>

lemma record_query:
  assumes "driver_ok ctx pg" and "env_repr n mx lat smp e" and "call_ok c" and "t < n"
    and ty: "op_ord ty < MAX_OPTYPES"
  shows "\<exists>e'. rbind (record_latency ctx (int t) ty c e) (\<lambda>e.
      rbind (add_stats ctx ty (took_us c sdiv 1000) False c e) (\<lambda>e. Inr (push_stat ty c cnt e))) = Inr e' \<and>
    ls_repr n (lat @ [(t, ty, took_us c)]) (env_latency e') \<and>
    ss_repr mx (smp @ sampled ctx [sample_of ty c False (took_us c sdiv 1000)]) (env_sampled e') \<and>
    data_queue (env_statQueue e')
      = data_queue (env_statQueue e) @ [StatMessage ty (word_of_int (took_us c)) cnt] \<and>
    env_db e' = env_db e"
proof -
  have "event_ok n (t, ty, took_us c)" using assms(3,4) ty by (simp add: event_ok_def call_ok_def)
  then obtain l where l: "recordLatency (ctx_sub_init ctx) (env_latency e) (int t) ty (took_us c) = Inr l"
    "ls_repr n (lat @ [(t, ty, took_us c)]) l"
    using recordLatency_repr assms(1,2) unfolding driver_ok_def env_repr_def by blast
  have "ss_repr mx smp (env_sampled (e\<lparr>env_latency := l\<rparr>))" "0 \<le> mx" "length smp < 2147483647"
    using assms(2) by (simp_all add: env_repr_def)
  from add_stats_ok [OF this(1) assms(3) ty this(2,3)] obtain s
    where "add_stats ctx ty (took_us c sdiv 1000) False c (e\<lparr>env_latency := l\<rparr>) = Inr (e\<lparr>env_latency := l, env_sampled := s\<rparr>)"
      "ss_repr mx (smp @ sampled ctx [sample_of ty c False (took_us c sdiv 1000)]) s" by auto
  with l assms(1) show ?thesis
    by (simp add: record_latency_def driver_ok_def push_stat_def push_def)
qed

text \<open>The error path ends in the runtime error, whatever the statement was.\<close>

lemma sql_error_eq:
  assumes "driver_ok ctx pg" and "env_repr n mx lat smp e" and "call_ok c" and ty: "op_ord ty < MAX_OPTYPES"
  shows "sql_error ctx ty c what e = Inl (RuntimeError what)"
proof -
  let ?ev = "sample_of ty c True (took_ms c)"
  obtain s where "addStats (env_sampled e) ty (took_ms c) True (draw_unif c) (draw_rand c) = Inr s"
    using addStats_repr [of mx smp "env_sampled e" ?ev] sample_of_ok(2) [OF assms(3) ty] assms(2)
    by (auto simp: env_repr_def sample_of_def)
  then show ?thesis by (simp add: sql_error_def add_stats_def)
qed

definition sql_only :: "'db ctx \<Rightarrow> bool" where
  "sql_only ctx \<longleftrightarrow> (\<forall>db s x. ctx_exec ctx db s = Inl x \<longrightarrow> (\<exists>w. x = SqlException w))"

lemma transaction_cases:
  assumes "sql_only ctx"
  obtains w where "transaction ctx sql e = Inl (SqlException w)"
    | db where "transaction ctx sql e = Inr (e\<lparr>env_db := db\<rparr>)"
proof (cases "transaction ctx sql e")
  case (Inl x)
  then have "\<exists>w. x = SqlException w"
    using assms by (auto simp: transaction_def rbind_eq_Inl sql_only_def)
  with Inl that(1) show thesis by blast
next
  case (Inr e')
  then obtain db where "e' = e\<lparr>env_db := db\<rparr>" by (auto simp: transaction_def rbind_eq_Inr)
  with Inr that(2) show thesis by blast
qed

lemma insert_facts:
  assumes "driver_ok ctx pg" and "sql_only ctx" and "env_repr n mx lat smp e" and "call_ok c" and "t < n"
    and "\<forall>u \<in> set us. 0 \<le> u \<and> u < 1"
    and "MySQL_InsertQuery ctx c ms us (int t) tab tim dev e = Some r"
  shows "r = Inl (RuntimeError ''Can't execute INSERT'') \<and>
    (\<exists>rows w. exec_all (ctx_exec ctx)
       [''BEGIN'', insert_sql tab (join '','' (map (row_tuple (ctx_fmt ctx) tim dev) rows)), ''COMMIT''] (env_db e)
       = Inl (SqlException w)) \<or>
    (\<exists>rows e' ms' us'. r = Inr (e', ms', us') \<and>
       1 \<le> length rows \<and> length rows \<le> 100 \<and> distinct (map row_metric rows) \<and>
       (\<forall>x \<in> set rows. row_ok in_range x) \<and>
       exec_all (ctx_exec ctx)
         [''BEGIN'', insert_sql tab (join '','' (map (row_tuple (ctx_fmt ctx) tim dev) rows)), ''COMMIT''] (env_db e)
         = Inr (env_db e') \<and>
       ls_repr n (lat @ [(t, InsertMetric, took_us c)]) (env_latency e') \<and>
       ss_repr mx (smp @ sampled ctx [sample_of InsertMetric c False (took_us c sdiv 1000)]) (env_sampled e') \<and>
       data_queue (env_statQueue e') = data_queue (env_statQueue e)
         @ [StatMessage InsertMetric (word_of_int (took_us c)) (of_nat (length rows))] \<and>
       set us' \<subseteq> set us)"
proof -
  from assms(1) have pg: "PGen (ctx_driver ctx) = Some pg" "pareto_ok pg" by (simp_all add: driver_ok_def)
  from assms(7) pg obtain u us1 where us: "us = u # us1" by (cases us) (simp_all add: MySQL_InsertQuery_def)
  let ?cnt = "GetNext_int pg MaxMetricsPerTs 0 u"
  have cnt: "1 \<le> ?cnt" "?cnt \<le> 100"
    using GetNext_int_down [of pg 0 MaxMetricsPerTs u] pg assms(6) us by (simp_all add: MaxMetricsPerTs_def)
  from assms(7) pg us cnt obtain v w nf ms' us'
    where loop: "metric_loop in_range pg (emit_sql (ctx_fmt ctx) tim dev) (nat ?cnt) [] ms us1 ([], [], False)
      = Some ((v, w, nf), ms', us')"
    by (auto simp: MySQL_InsertQuery_def Let_def split: option.splits)
  from metric_loop_rows [OF loop pg(2)] assms(6) us obtain rows
    where rows: "(v, w, nf) = foldl (emit_sql (ctx_fmt ctx) tim dev) ([], [], False) rows" "length rows = nat ?cnt"
      "distinct (map row_metric rows)" "\<forall>x \<in> set rows. row_ok in_range x" by auto
  have v: "v = join '','' (map (row_tuple (ctx_fmt ctx) tim dev) rows)" using rows(1) by (simp add: emit_sql_fold)
  have n: "(word_of_int ?cnt :: u32) = of_nat (length rows)" using rows(2) cnt by simp
  have ty: "op_ord InsertMetric < MAX_OPTYPES" by (simp add: MAX_OPTYPES_def)
  let ?body = "\<lambda>e. rbind (record_latency ctx (int t) InsertMetric c e) (\<lambda>e.
      rbind (add_stats ctx InsertMetric (took_us c sdiv 1000) False c e) (\<lambda>e.
      Inr (push_stat InsertMetric c (of_nat (length rows)) e)))"
  have r: "r = rbind (try_sql (rbind (transaction ctx (insert_sql tab v) e) ?body)
      (sql_error ctx InsertMetric c ''Can't execute INSERT'' e)) (\<lambda>e. Inr (e, ms', us'))"
    using assms(7) pg us cnt loop n by (simp add: MySQL_InsertQuery_def Let_def)
  show ?thesis
  proof (cases rule: transaction_cases [OF assms(2), of "insert_sql tab v" e])
    case (1 x)
    then have "r = Inl (RuntimeError ''Can't execute INSERT'')"
      unfolding r sql_error_eq [OF assms(1,3,4) ty] by simp
    moreover have "exec_all (ctx_exec ctx) [''BEGIN'', insert_sql tab v, ''COMMIT''] (env_db e) = Inl (SqlException x)"
      using 1 by (auto simp: transaction_def exec_all_def rbind_eq_Inl)
    ultimately show ?thesis unfolding v by blast
  next
    case (2 db)
    have "env_repr n mx lat smp (e\<lparr>env_db := db\<rparr>)" using assms(3) by (simp add: env_repr_def)
    from record_query [OF assms(1) this assms(4,5) ty, of "of_nat (length rows)"] obtain e'
      where e': "?body (e\<lparr>env_db := db\<rparr>) = Inr e'"
        "ls_repr n (lat @ [(t, InsertMetric, took_us c)]) (env_latency e')"
        "ss_repr mx (smp @ sampled ctx [sample_of InsertMetric c False (took_us c sdiv 1000)]) (env_sampled e')"
        "data_queue (env_statQueue e') = data_queue (env_statQueue e)
           @ [StatMessage InsertMetric (word_of_int (took_us c)) (of_nat (length rows))]"
        "env_db e' = db" by auto
    have "r = Inr (e', ms', us')" unfolding r 2 using e'(1) by simp
    moreover have "exec_all (ctx_exec ctx) [''BEGIN'', insert_sql tab v, ''COMMIT''] (env_db e) = Inr db"
      using 2 by (auto simp: transaction_def exec_all_def rbind_eq_Inr dest: arg_cong [of _ _ env_db])
    moreover have "set us' \<subseteq> set us" using metric_loop_draws [OF loop] us by auto
    ultimately show ?thesis using e' rows cnt v
      by (intro disjI2 exI [of _ rows] exI [of _ e'] exI [of _ ms'] exI [of _ us']) auto
  qed
qed

text \<open>Handling one insert message in the MySQL driver ends in one of two ways. Either one of
  the statements of the transaction raised an SQL exception, and the call ends in the runtime error. Or the three statements of the
  transaction were executed, with between 1 and 100 rows of distinct metrics in 1 to 1000, counts in
  1 to 60 and values that are 0 or in 0.5 to 10001, separated by commas; then exactly one latency,
  one statistics message with that number of rows, and with a CSV stream one sample, are recorded.\<close>

theorem mysql_insert:
  assumes "driver_ok ctx pg" and "sql_only ctx" and "env_repr n mx lat smp e" and "call_ok c" and "t < n"
    and "\<forall>u \<in> set us. 0 \<le> u \<and> u < 1"
    and "MySQL_InsertQuery ctx c ms us (int t) tab tim dev e = Some r"
  shows "r = Inl (RuntimeError ''Can't execute INSERT'') \<and>
    (\<exists>rows w. exec_all (ctx_exec ctx)
       [''BEGIN'', insert_sql tab (join '','' (map (row_tuple (ctx_fmt ctx) tim dev) rows)), ''COMMIT''] (env_db e)
       = Inl (SqlException w)) \<or>
    (\<exists>rows e' ms' us'. r = Inr (e', ms', us') \<and>
       1 \<le> length rows \<and> length rows \<le> 100 \<and> distinct (map row_metric rows) \<and>
       (\<forall>x \<in> set rows. row_ok in_range x) \<and>
       exec_all (ctx_exec ctx)
         [''BEGIN'', insert_sql tab (join '','' (map (row_tuple (ctx_fmt ctx) tim dev) rows)), ''COMMIT''] (env_db e)
         = Inr (env_db e') \<and>
       ls_repr n (lat @ [(t, InsertMetric, took_us c)]) (env_latency e') \<and>
       ss_repr mx (smp @ sampled ctx [sample_of InsertMetric c False (took_us c sdiv 1000)]) (env_sampled e') \<and>
       data_queue (env_statQueue e') = data_queue (env_statQueue e)
         @ [StatMessage InsertMetric (word_of_int (took_us c)) (of_nat (length rows))])"
  using insert_facts [OF assms] by blast

text \<open>A driver over a database that logs its statements, for the witnesses.\<close>

definition log_ctx :: "string list ctx" where
  "log_ctx =
     \<lparr>ctx_driver = setOstreamSampledStats (setLatencyStats (SetGenerator (GenericDriver [] [] [] []) main_pareto)),
      ctx_connect = \<lambda>g db. Inr (), ctx_exec = log_exec, ctx_query = \<lambda>db s. Inr 0, ctx_sub_init = \<lambda>row loc. row, ctx_fmt = \<lambda>x. ''0''\<rparr>"

definition log_env :: "string list env" where
  "log_env = \<lparr>env_db = [], env_latency = LatencyStats 1, env_sampled = SampledStats 0 10,
              env_statQueue = tsqueue_new, env_csv = []\<rparr>"

definition quick :: call_times where
  "quick = \<lparr>took_us = 1500, took_ms = 1, draw_unif = 0, draw_rand = 0\<rparr>"

lemma log_ctx_ok: "driver_ok log_ctx main_pareto" "sql_only log_ctx"
  by (simp_all add: driver_ok_def sql_only_def log_ctx_def log_exec_def deep_copy_def
      setOstreamSampledStats_def setLatencyStats_def SetGenerator_def GenericDriver_def)

lemma log_env_ok: "env_repr 1 10 [] [] log_env"
  by (simp add: env_repr_def log_env_def ls_repr_init ss_repr_init)

lemma quick_ok: "call_ok quick"
  by (simp add: call_ok_def quick_def)

text \<open>C34: An insert always finds its metrics once enough has been drawn: when the metric draws contain 100
  different numbers in the range and there are 201 uniform draws, the call returns.\<close>

theorem mysql_insert_returns:
  assumes "PGen (ctx_driver ctx) = Some pg" and "pareto_ok pg" and "\<forall>u \<in> set us. 0 \<le> u \<and> u < 1"
    and "100 \<le> card (set (filter in_range ms))" and "201 \<le> length us"
  shows "\<exists>r. MySQL_InsertQuery ctx c ms us threadId tab tim dev e = Some r"
proof -
  from assms(5) obtain u us1 where us: "us = u # us1" by (cases us) auto
  let ?cnt = "GetNext_int pg MaxMetricsPerTs 0 u"
  have cnt: "1 \<le> ?cnt" "?cnt \<le> 100"
    using GetNext_int_down [of pg 0 MaxMetricsPerTs u] assms us by (simp_all add: MaxMetricsPerTs_def)
  then have n: "nat ?cnt \<le> 100" by linarith
  have "nat ?cnt \<le> card (set (filter in_range ms))" using n assms(4) by (rule order_trans)
  moreover have "2 * nat ?cnt \<le> length us1" using n assms(5) us by simp
  ultimately have "\<exists>r. metric_loop in_range pg (emit_sql (ctx_fmt ctx) tim dev) (nat ?cnt) [] ms us1
      ([], [], False) = Some r" by (rule metric_loop_enough)
  then obtain r where
    "metric_loop in_range pg (emit_sql (ctx_fmt ctx) tim dev) (nat ?cnt) [] ms us1 ([], [], False) = Some r" ..
  with assms(1) us cnt show ?thesis
    by (cases r) (auto simp: MySQL_InsertQuery_def Let_def)
qed

lemma mysql_insert_returns_witness:
  "\<exists>r. MySQL_InsertQuery log_ctx quick (map int [1..<101]) (replicate 201 0) 0 1 60 1 log_env = Some r"
proof -
  have "filter in_range (map int [1..<101]) = map int [1..<101]"
    by (simp add: filter_id_conv in_range_def MaxMetrics_def)
  then have "card (set (filter in_range (map int [1..<101]))) = 100"
    by (simp add: card_image)
  then show ?thesis
    using mysql_insert_returns [of log_ctx main_pareto "replicate 201 0" "map int [1..<101]"] log_ctx_ok(1)
    by (simp add: driver_ok_def)
qed

lemma mysql_insert_witness:
  "\<exists>r. MySQL_InsertQuery log_ctx quick [5] [0, 0, 0] 0 1 60 1 log_env = Some r \<and>
     (\<exists>e' ms' us'. r = Inr (e', ms', us') \<and> length (data_queue (env_statQueue e')) = 1)"
proof -
  have pg: "PGen (ctx_driver log_ctx) = Some main_pareto" using log_ctx_ok(1) by (simp add: driver_ok_def)
  have "GetNext_int main_pareto MaxMetricsPerTs 0 0 = 1" by (simp add: GetNext_at_0)
  then have "\<exists>r. MySQL_InsertQuery log_ctx quick [5] [0, 0, 0] (int 0) 1 60 1 log_env = Some r"
    by (simp add: MySQL_InsertQuery_def pg in_range_def MaxMetrics_def emit_sql_def Let_def)
  then obtain r where r: "MySQL_InsertQuery log_ctx quick [5] [0, 0, 0] (int 0) 1 60 1 log_env = Some r" by blast
  from mysql_insert [OF log_ctx_ok log_env_ok quick_ok _ _ r] show ?thesis
    using r by (auto simp: log_env_def tsqueue_new_def exec_all_log log_ctx_def)
qed

section \<open>Selects with a CSV stream\<close>

lemma add_stats_select:
  assumes "ss_repr mx smp (env_sampled e)" and "ostreamSet (ctx_driver ctx)" and "MAX_OPTYPES \<le> op_ord mt"
  shows "add_stats ctx mt ms err c e = Inl OutOfBounds"
  using assms addStats_out_of_bounds [of mx "env_sampled e" mt]
  by (simp add: add_stats_def ss_repr_def)

text \<open>C38: With a CSV stream the run mode of the MySQL driver indexes out of bounds. The statistics arrays
  have an element for the first four operation types only, so every select, successful or failed,
  accesses an element that does not exist, and so does every loader when it displays the types of
  the run mode, however correct everything recorded before was.\<close>

theorem csvstream_run_out_of_bounds:
  assumes "ss_repr mx smp (env_sampled e)" and "0 \<le> mx" and "ostreamSet (ctx_driver ctx)"
    and "mt = Select_K1 \<or> mt = Select_K2 \<or> mt = Select_K3"
    and "\<And>s x. ctx_query ctx (env_db e) s = Inl x \<Longrightarrow> \<exists>w. x = SqlException w"
    and "displayFreq cfg * 1000 < endTime - lastDisplayTime"
  shows "MySQL_SelectQuery ctx c drawn tab dev mt e = Inl OutOfBounds \<and>
    periodic_display ctx cfg runStats endTime (e, lastDisplayTime) = Inl OutOfBounds"
proof
  have mt: "MAX_OPTYPES \<le> op_ord mt" using assms(4) by (auto simp: MAX_OPTYPES_def)
  note oob = add_stats_select [OF assms(1,3) mt]
  show "MySQL_SelectQuery ctx c drawn tab dev mt e = Inl OutOfBounds"
  proof (cases "ctx_query ctx (env_db e) (select_sql tab dev mt drawn)")
    case (Inl x)
    with assms(5) obtain w where "x = SqlException w" by blast
    with Inl show ?thesis by (simp add: MySQL_SelectQuery_def sql_error_def oob)
  next
    case (Inr rows)
    then show ?thesis by (simp add: MySQL_SelectQuery_def oob try_sql_def)
  qed
  have i: "op_ord InsertMetric < MAX_OPTYPES" "op_ord DeleteDevice < MAX_OPTYPES"
    by (simp_all add: MAX_OPTYPES_def)
  let ?fmt = "ctx_fmt ctx" and ?s = "env_sampled e"
  obtain s1 l1 where s1: "displayStats ?fmt True ?s InsertMetric 0
      (min (maxsamples ?s) (opsSinceReset ?s ! op_ord InsertMetric)) lastDisplayTime endTime (env_csv e)
        = Inr (s1, env_csv e @ l1)" "ss_repr mx smp s1"
    using display_one [OF assms(1) i(1) assms(2)] by blast
  obtain s2 l2 where s2: "displayStats ?fmt True s1 DeleteDevice 0
      (min (maxsamples s1) (opsSinceReset s1 ! op_ord DeleteDevice)) lastDisplayTime endTime (env_csv e @ l1)
        = Inr (s2, (env_csv e @ l1) @ l2)" "ss_repr mx smp s2"
    using display_one [OF s1(2) i(2) assms(2)] by blast
  have g: "arr_get (opsSinceReset s) (int k) = (if k < MAX_OPTYPES then Inr (opsSinceReset s ! k) else Inl OutOfBounds)"
    if "ss_repr mx smp s" for s k
    using that by (simp add: ss_repr_def ss_dims_def arr_get_ok arr_get_bad)
  have "displayStats_types ?fmt True ?s lastDisplayTime endTime runStats (env_csv e) = Inl OutOfBounds"
    using s1(1) s2(1) g [OF assms(1), of "op_ord InsertMetric"] g [OF s1(2), of "op_ord DeleteDevice"]
      g [OF s2(2), of "op_ord Select_K1"] i
    by (simp add: displayStats_types_def runStats_def MAX_OPTYPES_def)
  then show "periodic_display ctx cfg runStats endTime (e, lastDisplayTime) = Inl OutOfBounds"
    using assms(3,6) by (simp add: periodic_display_def)
qed

lemma csvstream_run_out_of_bounds_witness:
  "MySQL_SelectQuery log_ctx quick 1 1 1 Select_K2 log_env = Inl OutOfBounds \<and>
   periodic_display log_ctx default_config runStats 20000 (log_env, 0) = Inl OutOfBounds"
proof -
  have "ss_repr 10 [] (env_sampled log_env)" using log_env_ok by (simp add: env_repr_def)
  moreover have "ostreamSet (ctx_driver log_ctx)" by (simp add: log_ctx_def setOstreamSampledStats_def)
  ultimately show ?thesis
    using csvstream_run_out_of_bounds [of 10 "[]" log_env log_ctx Select_K2 default_config 20000 0]
    by (simp add: log_ctx_def default_config_def)
qed

end
