(* ===== verification/MySQLThreads.thy ===== *)
theory MySQLThreads
  imports MySQLFacts PreparerFacts
begin

text \<open>
  Whole threads of the MySQL driver: a loader of the prepare mode over all messages it pops, its
  display, and what a select thread leaves in the statistics.
\<close>

section \<open>The loop of a loader\<close>

text \<open>The statement \<open>s\<close> inserts \<open>k\<close> rows for the message that arrived.\<close>

definition inserts_message :: "(real \<Rightarrow> string) \<Rightarrow> arrival \<Rightarrow> string \<times> nat \<Rightarrow> bool" where
  "inserts_message fmt a sk \<longleftrightarrow>
     (\<exists>rows. snd sk = length rows \<and> 1 \<le> length rows \<and> length rows \<le> 100 \<and> distinct (map row_metric rows) \<and>
        (\<forall>x \<in> set rows. row_ok in_range x) \<and>
        fst sk = insert_sql (table_id (ar_message a))
          (join '','' (map (row_tuple fmt (ts (ar_message a)) (device_id (ar_message a))) rows)))"

definition arrival_latency :: "nat \<Rightarrow> arrival \<Rightarrow> latency_event" where
  "arrival_latency t a = (t, InsertMetric, took_us (ar_call a))"

text \<open>What the thread has done to its objects after the messages of \<open>as\<close>.\<close>

definition loaded ::
  "'db ctx \<Rightarrow> nat \<Rightarrow> int \<Rightarrow> nat \<Rightarrow> latency_event list \<Rightarrow> sample_event list \<Rightarrow> arrival list \<Rightarrow> (string \<times> nat) list
   \<Rightarrow> 'db env \<Rightarrow> 'db env \<Rightarrow> bool" where
  "loaded ctx n mx t lat smp as sks e e' \<longleftrightarrow>
     list_all2 (inserts_message (ctx_fmt ctx)) as sks \<and>
     exec_all (ctx_exec ctx) (concat (map (\<lambda>sk. [''BEGIN'', fst sk, ''COMMIT'']) sks)) (env_db e) = Inr (env_db e') \<and>
     ls_repr n (lat @ map (arrival_latency t) as) (env_latency e') \<and>
     ss_repr mx (smp @ sampled ctx (map arrival_sample as)) (env_sampled e') \<and>
     data_queue (env_statQueue e') = data_queue (env_statQueue e) @ map2 arrival_stat as (map snd sks)"

lemma insert_body:
  assumes ok: "driver_ok ctx pg" "sql_only ctx" and e: "env_repr n mx lat smp e" and t: "t < n"
    and a: "insert_arrival a" and us: "\<forall>u \<in> set us. 0 \<le> u \<and> u < 1"
    and shown: "displays ctx shown"
    and body: "MySQL_InsertData_body ctx cfg shown (int t) a ms us (e, t0) = Some r"
  shows "r = Inl (RuntimeError ''Can't execute INSERT'') \<and> (\<exists>db s w. ctx_exec ctx db s = Inl (SqlException w)) \<or>
    (\<exists>sk e' t' ms' us'. r = Inr ((e', t'), ms', us') \<and> loaded ctx n mx t lat smp [a] [sk] e e' \<and> set us' \<subseteq> set us)"
proof -
  let ?m = "ar_message a"
  from a have a': "op ?m = Insert" "call_ok (ar_call a)" by (simp_all add: insert_arrival_def)
  from body a' obtain q where q: "MySQL_InsertQuery ctx (ar_call a) ms us (int t) (table_id ?m) (ts ?m) (device_id ?m) e = Some q"
    and r: "r = rbind q (\<lambda>(e, ms, us). rbind (periodic_display ctx cfg shown (ar_endTime a) (e, t0)) (\<lambda>st. Inr (st, ms, us)))"
    by (auto simp: MySQL_InsertData_body_def MySQL_handle_def split: option.splits)
  have raised: "\<exists>db s w. ctx_exec ctx db s = Inl (SqlException w)" if "exec_all (ctx_exec ctx) [x, y, z] db = Inl (SqlException w)"
    for x y z db w
    using that by (auto simp: exec_all_def rbind_eq_Inl)
  from insert_facts [OF ok e a'(2) t us q] show ?thesis
  proof (elim disjE exE conjE)
    fix rows e' ms' us'
    assume f: "q = Inr (e', ms', us')" "1 \<le> length rows" "length rows \<le> 100" "distinct (map row_metric rows)"
      "\<forall>x \<in> set rows. row_ok in_range x"
      "exec_all (ctx_exec ctx) [''BEGIN'', insert_sql (table_id ?m)
         (join '','' (map (row_tuple (ctx_fmt ctx) (ts ?m) (device_id ?m)) rows)), ''COMMIT''] (env_db e) = Inr (env_db e')"
      "ls_repr n (lat @ [(t, InsertMetric, took_us (ar_call a))]) (env_latency e')"
      "ss_repr mx (smp @ sampled ctx [sample_of InsertMetric (ar_call a) False (took_us (ar_call a) sdiv 1000)]) (env_sampled e')"
      "data_queue (env_statQueue e') = data_queue (env_statQueue e)
         @ [StatMessage InsertMetric (word_of_int (took_us (ar_call a))) (of_nat (length rows))]"
      "set us' \<subseteq> set us"
    have "0 \<le> mx" using e by (simp add: env_repr_def)
    from periodic_shown [OF shown f(8) this] obtain s out t'
      where p: "periodic_display ctx cfg shown (ar_endTime a) (e', t0) = Inr (e'\<lparr>env_sampled := s, env_csv := out\<rparr>, t')"
        "ss_repr mx (smp @ sampled ctx [sample_of InsertMetric (ar_call a) False (took_us (ar_call a) sdiv 1000)]) s" by blast
    let ?sk = "(insert_sql (table_id ?m) (join '','' (map (row_tuple (ctx_fmt ctx) (ts ?m) (device_id ?m)) rows)), length rows)"
    have "inserts_message (ctx_fmt ctx) a ?sk"
      unfolding inserts_message_def using f(2-5) by (intro exI [of _ rows]) simp
    then have "loaded ctx n mx t lat smp [a] [?sk] e (e'\<lparr>env_sampled := s, env_csv := out\<rparr>)"
      using f(6,7,9) p(2)
      by (simp add: loaded_def arrival_latency_def arrival_sample_def arrival_stat_def)
    with r f(1,10) p(1) show ?thesis by auto
  qed (use r raised in auto)
qed

lemma exec_all_append: "exec_all f (xs @ ys) db = rbind (exec_all f xs db) (exec_all f ys)"
  unfolding exec_all_def by (simp add: rfold_append)

lemma loaded_snoc:
  assumes "loaded ctx n mx t lat smp as sks e0 e"
    and "loaded ctx n mx t (lat @ map (arrival_latency t) as) (smp @ sampled ctx (map arrival_sample as)) [a] [sk] e e'"
  shows "loaded ctx n mx t lat smp (as @ [a]) (sks @ [sk]) e0 e'"
proof -
  have "exec_all (ctx_exec ctx) (concat (map (\<lambda>sk. [''BEGIN'', fst sk, ''COMMIT'']) (sks @ [sk]))) (env_db e0) = Inr (env_db e')"
    using assms unfolding loaded_def map_append concat_append exec_all_append by (simp only: rbind_Inr)
  moreover have "length as = length sks" "length as = length (map snd sks)"
    using assms(1) by (auto simp: loaded_def dest: list_all2_lengthD)
  ultimately show ?thesis using assms by (simp add: loaded_def list_all2_appendI)
qed

text \<open>The loop keeps what one message keeps.\<close>

definition mysql_loads ::
  "'db ctx \<Rightarrow> pareto \<Rightarrow> nat \<Rightarrow> int \<Rightarrow> message_type list \<Rightarrow> nat \<Rightarrow> latency_event list \<Rightarrow> 'db env \<Rightarrow> arrival list \<Rightarrow> (string \<times> nat) list
   \<Rightarrow> 'db env \<times> int \<Rightarrow> bool" where
  "mysql_loads ctx pg n mx shown t lat e0 as sks st \<longleftrightarrow>
     driver_ok ctx pg \<and> sql_only ctx \<and> displays ctx shown \<and> t < n \<and> 0 \<le> mx \<and> loaded ctx n mx t lat [] as sks e0 (fst st)"

definition mysql_failed :: "'db ctx \<Rightarrow> mb_error \<Rightarrow> bool" where
  "mysql_failed ctx x \<longleftrightarrow>
     x = RuntimeError ''Can't execute INSERT'' \<and> (\<exists>db s w. ctx_exec ctx db s = Inl (SqlException w))"

interpretation mysql_loop: handled_loop "MySQL_InsertData_body ctx cfg shown (int t)"
  "mysql_loads ctx pg n mx shown t lat e0" "mysql_failed ctx"
proof
  fix as sks and st :: "'a env \<times> int" and a us ms r
  assume h: "mysql_loads ctx pg n mx shown t lat e0 as sks st" and a: "insert_arrival a" and len: "length as < 2147483647"
    and us: "\<forall>u \<in> set us. 0 \<le> u \<and> u < 1"
    and body: "MySQL_InsertData_body ctx cfg shown (int t) a ms us st = Some r"
  obtain e t0 where st: "st = (e, t0)" by (cases st)
  from h have ok: "driver_ok ctx pg" "sql_only ctx" and shown: "displays ctx shown" and t: "t < n" and mx: "0 \<le> mx"
    and l: "loaded ctx n mx t lat [] as sks e0 e" by (simp_all add: mysql_loads_def st)
  have e: "env_repr n mx (lat @ map (arrival_latency t) as) ([] @ sampled ctx (map arrival_sample as)) e"
    using l mx order_le_less_trans [OF sampled_simps(3) [of ctx "map arrival_sample as"], of 2147483647] len
    by (simp add: loaded_def env_repr_def)
  from insert_body [OF ok e t a us shown body [unfolded st]]
  show "(\<exists>x. r = Inl x \<and> mysql_failed ctx x) \<or>
    (\<exists>w st' ms' us'. r = Inr (st', ms', us') \<and> mysql_loads ctx pg n mx shown t lat e0 (as @ [a]) (sks @ [w]) st' \<and> set us' \<subseteq> set us)"
    using loaded_snoc [OF l] ok shown t mx by (fastforce simp: mysql_loads_def mysql_failed_def)
qed

text \<open>C3: A loader thread, from its connection to its last display. If nothing fails it
  has executed, for each insert message it popped and in that order, one transaction with one insert
  of 1 to 100 rows for the table, device and time of the message, and recorded for each one latency
  under its own thread number, one statistics message with the number of rows and, with a CSV stream,
  one sample. This holds for both modes, but for the run mode only without a CSV stream. A connection that cannot be made, or a statement that raises an exception, ends the process.\<close>

theorem mysql_loader_thread:
  assumes "driver_ok ctx pg" and "sql_only ctx" and "ls_repr n lat (env_latency e)" and "t < n"
    and "ctx_connect ctx (ctx_driver ctx) (env_db e) = Inr () \<or> ctx_connect ctx (ctx_driver ctx) (env_db e) = Inl (SqlException w)"
    and "0 \<le> cfg_maxsamples cfg" and "list_all insert_arrival as" and "length as < 2147483647"
    and "\<forall>u \<in> set us. 0 \<le> u \<and> u < 1"
    and "MySQL_InsertData ctx cfg shown (int t) startTime as endTime ms us e = Some r"
    and "displays ctx shown"
  shows "r = Inl Terminate \<and> (ctx_connect ctx (ctx_driver ctx) (env_db e) \<noteq> Inr ()
       \<or> (\<exists>db s w. ctx_exec ctx db s = Inl (SqlException w))) \<or>
    (\<exists>sks e'. r = Inr e' \<and> loaded ctx n (cfg_maxsamples cfg) t lat [] as sks e e')"
proof (cases "ctx_connect ctx (ctx_driver ctx) (env_db e)")
  case (Inl x)
  with assms(5,10) show ?thesis by (simp add: MySQL_InsertData_def in_thread_def uncaught_def)
next
  case (Inr x)
  let ?mx = "cfg_maxsamples cfg" and ?e = "thread_env cfg (int t) e"
  have start: "mysql_loads ctx pg n ?mx shown t lat ?e [] [] (?e, startTime)"
    using assms(1-4,6,11) by (simp add: mysql_loads_def loaded_def thread_env_def ss_repr_init exec_all_def)
  from assms(10) Inr obtain q where
    q: "loader_loop (MySQL_InsertData_body ctx cfg shown (int t)) as ms us (?e, startTime) = Some q"
    and r: "Some r = in_thread (Some (rbind q (\<lambda>(st, ms, us). final_display ctx shown endTime st)))"
    by (auto simp: MySQL_InsertData_def in_thread_def split: option.splits)
  have len: "length ([] :: arrival list) + length as \<le> 2147483647" using assms(8) by simp
  from mysql_loop.handle_all [OF assms(7) start len assms(9) q] show ?thesis
  proof (elim disjE exE conjE)
    fix sks st ms' us'
    assume h: "q = Inr (st, ms', us')" "mysql_loads ctx pg n ?mx shown t lat ?e ([] @ as) ([] @ sks) st"
    obtain e' t' where "st = (e', t')" by (cases st)
    with h have b: "q = Inr ((e', t'), ms', us')" "loaded ctx n ?mx t lat [] as sks ?e e'"
      by (simp_all add: mysql_loads_def)
    have "ss_repr ?mx ([] @ sampled ctx (map arrival_sample as)) (env_sampled e')" using b(2) by (simp add: loaded_def)
    from final_shown [OF assms(11) this assms(6)] obtain s out
      where s: "final_display ctx shown endTime (e', t') = Inr (e'\<lparr>env_sampled := s, env_csv := out\<rparr>)"
        "ss_repr ?mx ([] @ sampled ctx (map arrival_sample as)) s" by blast
    have "loaded ctx n ?mx t lat [] as sks e (e'\<lparr>env_sampled := s, env_csv := out\<rparr>)"
      using b(2) s(2) by (simp add: loaded_def thread_env_def)
    with r b(1) s(1) show ?thesis by (auto simp: in_thread_def)
  qed (use r in \<open>auto simp: in_thread_def uncaught_def mysql_failed_def\<close>)
qed

lemma one_insert_returns: "\<exists>r. MySQL_InsertQuery log_ctx quick [5] [0, 0, 0] t 1 60 1 e = Some r"
proof -
  have pg: "PGen (ctx_driver log_ctx) = Some main_pareto" using log_ctx_ok(1) by (simp add: driver_ok_def)
  have "GetNext_int main_pareto MaxMetricsPerTs 0 0 = 1" by (simp add: GetNext_at_0)
  then show ?thesis
    by (simp add: MySQL_InsertQuery_def pg in_range_def MaxMetrics_def emit_sql_def Let_def)
qed

lemma mysql_loader_thread_witness:
  "\<exists>e'. MySQL_InsertData log_ctx default_config loadStats (int 0) 0
      [\<lparr>ar_message = Message Insert 60 1 1, ar_call = quick, ar_endTime = 20000\<rparr>] 30000 [5] [0, 0, 0] log_env = Some (Inr e')
    \<and> length (data_queue (env_statQueue e')) = 1"
proof -
  let ?as = "[\<lparr>ar_message = Message Insert 60 1 1, ar_call = quick, ar_endTime = 20000\<rparr>]"
  let ?t = "MySQL_InsertData log_ctx default_config loadStats (int 0) 0 ?as 30000 [5] [0, 0, 0] log_env"
  have con: "ctx_connect log_ctx (ctx_driver log_ctx) (env_db log_env) = Inr ()" by (simp add: log_ctx_def)
  from one_insert_returns [of "int 0" "thread_env default_config (int 0) log_env"]
  have "\<exists>r. ?t = Some r"
    unfolding MySQL_InsertData_def con in_thread_def
    by (auto simp: MySQL_InsertData_body_def MySQL_handle_def split: option.split sum.split)
  then obtain r where r: "?t = Some r" ..
  have "ls_repr 1 [] (env_latency log_env)" using log_env_ok by (simp add: env_repr_def)
  moreover have "list_all insert_arrival ?as" by (simp add: insert_arrival_def quick_ok)
  moreover have "0 \<le> cfg_maxsamples default_config" by (simp add: default_config_def)
  ultimately have "r = Inl Terminate \<and> (ctx_connect log_ctx (ctx_driver log_ctx) (env_db log_env) \<noteq> Inr ()
       \<or> (\<exists>db s w. ctx_exec log_ctx db s = Inl (SqlException w))) \<or>
    (\<exists>sks e'. r = Inr e' \<and> loaded log_ctx 1 (cfg_maxsamples default_config) 0 [] [] ?as sks log_env e')"
    using mysql_loader_thread [OF log_ctx_ok _ _ disjI1 [OF con] _ _ _ _ r displays_simps(1)] by simp
  then show ?thesis
    using r con by (auto simp: log_ctx_def log_exec_def loaded_def log_env_def tsqueue_new_def list_all2_Cons1)
qed

section \<open>Deletes\<close>

text \<open>C27: Handling a delete message ends in one of two ways: a statement of the transaction raised an SQL
  exception, and the call ends in the runtime error; or the rows of one device at one time were
  deleted in one transaction, and exactly one latency, one statistics message with the count 1 and, with
  a CSV stream, one sample were recorded for the type \<open>DeleteDevice\<close>.\<close>

theorem mysql_delete:
  assumes "driver_ok ctx pg" and "sql_only ctx" and "env_repr n mx lat smp e" and "call_ok c" and "t < n"
  shows "MySQL_DeleteQuery ctx c (int t) tab tim dev e = Inl (RuntimeError ''Can't execute DELETE'') \<and>
    (\<exists>w. exec_all (ctx_exec ctx) [''BEGIN'', delete_sql tab tim dev, ''COMMIT''] (env_db e) = Inl (SqlException w)) \<or>
    (\<exists>e'. MySQL_DeleteQuery ctx c (int t) tab tim dev e = Inr e' \<and>
       exec_all (ctx_exec ctx) [''BEGIN'', delete_sql tab tim dev, ''COMMIT''] (env_db e) = Inr (env_db e') \<and>
       ls_repr n (lat @ [(t, DeleteDevice, took_us c)]) (env_latency e') \<and>
       ss_repr mx (smp @ sampled ctx [sample_of DeleteDevice c False (took_us c sdiv 1000)]) (env_sampled e') \<and>
       data_queue (env_statQueue e') = data_queue (env_statQueue e) @ [StatMessage DeleteDevice (word_of_int (took_us c)) 1])"
proof -
  have ty: "op_ord DeleteDevice < MAX_OPTYPES" by (simp add: MAX_OPTYPES_def)
  have tr: "transaction ctx sql e = rbind (exec_all (ctx_exec ctx) [''BEGIN'', sql, ''COMMIT''] (env_db e)) (\<lambda>db. Inr (e\<lparr>env_db := db\<rparr>))" for sql
    by (simp add: transaction_def exec_all_def rbind_assoc)
  show ?thesis
  proof (cases "exec_all (ctx_exec ctx) [''BEGIN'', delete_sql tab tim dev, ''COMMIT''] (env_db e)")
    case (Inl x)
    then have "transaction ctx (delete_sql tab tim dev) e = Inl x" by (simp add: tr)
    with transaction_cases [OF assms(2), of "delete_sql tab tim dev" e] obtain w where w: "x = SqlException w" by fastforce
    with Inl sql_error_eq [OF assms(1,3,4) ty] show ?thesis by (simp add: MySQL_DeleteQuery_def tr)
  next
    case (Inr db)
    have "env_repr n mx lat smp (e\<lparr>env_db := db\<rparr>)" using assms(3) by (simp add: env_repr_def)
    from record_query [OF assms(1) this assms(4,5) ty, of 1] Inr show ?thesis
      by (auto simp: MySQL_DeleteQuery_def tr)
  qed
qed

lemma mysql_delete_witness:
  "\<exists>e'. MySQL_DeleteQuery log_ctx quick (int 0) 1 60 1 log_env = Inr e' \<and>
     env_db e' = [''BEGIN'', delete_sql 1 60 1, ''COMMIT'']"
proof -
  have "exec_all (ctx_exec log_ctx) [''BEGIN'', delete_sql 1 60 1, ''COMMIT''] (env_db log_env)
      = Inr [''BEGIN'', delete_sql 1 60 1, ''COMMIT'']"
    unfolding log_ctx_def log_env_def by (simp add: exec_all_log)
  with mysql_delete [OF log_ctx_ok log_env_ok quick_ok, of 0 1 60 1] show ?thesis by auto
qed

section \<open>The select thread\<close>

definition round_ok :: "select_round \<Rightarrow> bool" where
  "round_ok rd \<longleftrightarrow> 0 \<le> sr_device rd \<and> sr_device rd < 1 \<and> 0 \<le> sr_table rd \<and> sr_table rd < 1"

definition round_stat :: "select_round \<Rightarrow> stat_message" where
  "round_stat rd = StatMessage (sr_kind rd) (word_of_int (took_us (sr_call rd))) 1"

text \<open>The query of a round is about an existing table and device, and was answered.\<close>

definition answered :: "'db ctx \<Rightarrow> config \<Rightarrow> 'db \<Rightarrow> select_round \<Rightarrow> bool" where
  "answered ctx cfg db rd \<longleftrightarrow>
     (\<exists>tab dev k. 1 \<le> unat tab \<and> unat tab \<le> unat (DBTables cfg) \<and> 1 \<le> unat dev \<and> unat dev \<le> unat (MaxDevices cfg) \<and>
        ctx_query ctx db (select_sql tab dev (sr_kind rd) (sr_metric rd)) = Inr k)"

lemma pareto_word:
  assumes "pareto_ok pg" and "0 \<le> v" and "v < 1" and "0 < unat w" and "unat (w :: u32) < 2147483647"
  shows "1 \<le> unat (word_of_int (GetNext_int pg (sint w) 0 v) :: u32) \<and>
    unat (word_of_int (GetNext_int pg (sint w) 0 v) :: u32) \<le> unat w"
proof -
  have w: "sint w = int (unat w)" using assms(5) by (rule sint_small)
  have "0 < int (unat w)" using assms(4) by (simp only: of_nat_0_less_iff)
  then have "1 \<le> GetNext_int pg (sint w) 0 v" "GetNext_int pg (sint w) 0 v \<le> int (unat w)"
    using GetNext_int_down [of pg 0 "sint w" v] assms(1-3) unfolding w by simp_all
  moreover from this assms(5) have "unat (word_of_int (GetNext_int pg (sint w) 0 v) :: u32) = nat (GetNext_int pg (sint w) 0 v)"
    by (intro unat_word_of_int_small) linarith+
  ultimately show ?thesis by linarith
qed

lemma select_rounds:
  assumes pg: "PGen (ctx_driver ctx) = Some pg" "pareto_ok pg" and quiet: "\<not> ostreamSet (ctx_driver ctx)"
    and sql: "\<forall>db s y. ctx_query ctx db s = Inl y \<longrightarrow> (\<exists>w. y = SqlException w)"
    and cfg: "small_config cfg" "0 < unat (MaxDevices cfg)" "0 < unat (DBTables cfg)"
    and rounds: "list_all round_ok rounds"
  shows "rfold (\<lambda>r. MySQL_SelectData_body ctx cfg shown (sr_call r) (sr_endTime r) (sr_device r) (sr_table r) (sr_kind r) (sr_metric r))
      rounds (e, from_ms) = Inl (RuntimeError ''Can't execute DELETE'') \<and> (\<exists>db s w. ctx_query ctx db s = Inl (SqlException w)) \<or>
    rfold (\<lambda>r. MySQL_SelectData_body ctx cfg shown (sr_call r) (sr_endTime r) (sr_device r) (sr_table r) (sr_kind r) (sr_metric r))
      rounds (e, from_ms) = Inr (e\<lparr>env_statQueue := \<lparr>data_queue = data_queue (env_statQueue e) @ map round_stat rounds\<rparr>\<rparr>, from_ms) \<and>
    list_all (answered ctx cfg (env_db e)) rounds"
  using rounds
proof (induction rounds arbitrary: e)
  case Nil
  then show ?case by simp
next
  case (Cons rd rounds)
  from Cons.prems have rd: "0 \<le> sr_device rd" "sr_device rd < 1" "0 \<le> sr_table rd" "sr_table rd < 1"
    by (simp_all add: round_ok_def)
  let ?dev = "word_of_int (GetNext_int pg (sint (MaxDevices cfg)) 0 (sr_device rd)) :: u32"
  let ?tab = "word_of_int (GetNext_int pg (sint (DBTables cfg)) 0 (sr_table rd)) :: u32"
  let ?e = "e\<lparr>env_statQueue := \<lparr>data_queue = data_queue (env_statQueue e) @ [round_stat rd]\<rparr>\<rparr>"
  have range: "1 \<le> unat ?dev" "unat ?dev \<le> unat (MaxDevices cfg)" "1 \<le> unat ?tab" "unat ?tab \<le> unat (DBTables cfg)"
    using pareto_word [OF pg(2) rd(1,2) cfg(2)] pareto_word [OF pg(2) rd(3,4) cfg(3)] cfg(1)
    by (simp_all add: small_config_def)
  show ?case
  proof (cases "ctx_query ctx (env_db e) (select_sql ?tab ?dev (sr_kind rd) (sr_metric rd))")
    case (Inl y)
    from this sql obtain w where "y = SqlException w" by blast
    with Inl pg(1) quiet show ?thesis
      by (auto simp: MySQL_SelectData_body_def MySQL_SelectQuery_def sql_error_def add_stats_def Let_def)
  next
    case (Inr k)
    with range have "answered ctx cfg (env_db e) rd" unfolding answered_def by blast
    moreover have "MySQL_SelectData_body ctx cfg shown (sr_call rd) (sr_endTime rd) (sr_device rd) (sr_table rd) (sr_kind rd)
        (sr_metric rd) (e, from_ms) = Inr (?e, from_ms)"
      using Inr pg(1) quiet
      by (simp add: MySQL_SelectData_body_def MySQL_SelectQuery_def add_stats_def periodic_display_def push_stat_def
          push_def round_stat_def Let_def)
    moreover have "list_all round_ok rounds" using Cons.prems by simp
    ultimately show ?thesis using Cons.IH [of ?e] by (auto simp: list_all_iff)
  qed
qed

text \<open>C26: The select thread without a CSV stream. If its connection and every query succeed, each round asks
  for an existing table and an existing device, and pushes one statistics message with the kind of
  the query and the count 1, in the order of the rounds; the database, the latency histogram and the
  thread's samples stay as they were. Otherwise the process ends.\<close>

theorem mysql_select_thread:
  assumes "PGen (ctx_driver ctx) = Some pg" and "pareto_ok pg" and "\<not> ostreamSet (ctx_driver ctx)"
    and "\<forall>db s y. ctx_query ctx db s = Inl y \<longrightarrow> (\<exists>w. y = SqlException w)"
    and "\<forall>y. ctx_connect ctx (ctx_driver ctx) (env_db e) = Inl y \<longrightarrow> (\<exists>w. y = SqlException w)"
    and "small_config cfg" and "0 < unat (MaxDevices cfg)" and "0 < unat (DBTables cfg)"
    and "list_all round_ok rounds"
  shows "MySQL_SelectData ctx cfg shown startTime rounds endTime e = Some (Inl Terminate) \<and>
    ((\<exists>y. ctx_connect ctx (ctx_driver ctx) (env_db e) = Inl y) \<or> (\<exists>db s w. ctx_query ctx db s = Inl (SqlException w))) \<or>
    (\<exists>e'. MySQL_SelectData ctx cfg shown startTime rounds endTime e = Some (Inr e') \<and>
       list_all (answered ctx cfg (env_db e)) rounds \<and>
       data_queue (env_statQueue e') = data_queue (env_statQueue e) @ map round_stat rounds \<and>
       env_db e' = env_db e \<and> env_latency e' = env_latency e \<and> env_csv e' = env_csv e \<and>
       env_sampled e' = SampledStats 0 (cfg_maxsamples cfg))"
proof (cases "ctx_connect ctx (ctx_driver ctx) (env_db e)")
  case (Inl y)
  from this assms(5) obtain w where "y = SqlException w" by blast
  with Inl show ?thesis by (simp add: MySQL_SelectData_def in_thread_def uncaught_def)
next
  case (Inr x)
  let ?loop = "rfold (\<lambda>r. MySQL_SelectData_body ctx cfg shown (sr_call r) (sr_endTime r) (sr_device r) (sr_table r)
      (sr_kind r) (sr_metric r)) rounds (thread_env cfg 0 e, startTime)"
  have eq: "MySQL_SelectData ctx cfg shown startTime rounds endTime e
      = in_thread (Some (rbind ?loop (\<lambda>st. final_display ctx shown endTime st)))"
    using Inr by (simp add: MySQL_SelectData_def)
  have db: "env_db (thread_env cfg 0 e) = env_db e" by (simp add: thread_env_def)
  from select_rounds [OF assms(1-3) assms(4) assms(6-9), where shown = shown and e = "thread_env cfg 0 e" and from_ms = startTime]
  show ?thesis
    unfolding db
  proof (elim disjE conjE)
    assume "?loop = Inl (RuntimeError ''Can't execute DELETE'')" and "\<exists>db s w. ctx_query ctx db s = Inl (SqlException w)"
    then show ?thesis by (simp add: eq in_thread_def uncaught_def)
  next
    assume "?loop = Inr (thread_env cfg 0 e\<lparr>env_statQueue := \<lparr>data_queue = data_queue (env_statQueue (thread_env cfg 0 e)) @ map round_stat rounds\<rparr>\<rparr>, startTime)"
      and "list_all (answered ctx cfg (env_db e)) rounds"
    then show ?thesis using assms(3) by (simp add: eq in_thread_def final_display_def thread_env_def)
  qed
qed

lemma mysql_select_thread_witness:
  "\<exists>e'. MySQL_SelectData (log_ctx\<lparr>ctx_driver := SetGenerator (GenericDriver [] [] [] []) main_pareto\<rparr>) default_config
       runStats 0 [\<lparr>sr_call = quick, sr_endTime = 5, sr_device = 0, sr_table = 0, sr_kind = Select_K2, sr_metric = 7\<rparr>]
       10 log_env = Some (Inr e') \<and>
     data_queue (env_statQueue e') = [StatMessage Select_K2 1500 1]"
proof -
  let ?ctx = "log_ctx\<lparr>ctx_driver := SetGenerator (GenericDriver [] [] [] []) main_pareto\<rparr>"
  let ?rd = "\<lparr>sr_call = quick, sr_endTime = 5, sr_device = 0, sr_table = 0, sr_kind = Select_K2, sr_metric = 7\<rparr>"
  have q: "ctx_query log_ctx db s = Inr 0" "ctx_connect log_ctx g db = Inr ()" for db s g
    by (simp_all add: log_ctx_def)
  have pg: "PGen (ctx_driver ?ctx) = Some main_pareto" "\<not> ostreamSet (ctx_driver ?ctx)"
    by (simp_all add: SetGenerator_def GenericDriver_def)
  have cfg: "small_config default_config" "0 < unat (MaxDevices default_config)" "0 < unat (DBTables default_config)"
    by (simp_all add: small_config_def default_config_def)
  have rd: "list_all round_ok [?rd]" by (simp add: round_ok_def)
  have sql: "\<forall>db s y. ctx_query ?ctx db s = Inl y \<longrightarrow> (\<exists>w. y = SqlException w)" by (simp add: q)
  have con: "\<forall>y. ctx_connect ?ctx (ctx_driver ?ctx) (env_db log_env) = Inl y \<longrightarrow> (\<exists>w. y = SqlException w)"
    by (simp add: q)
  have "map round_stat [?rd] = [StatMessage Select_K2 1500 1]" by (simp add: round_stat_def quick_def)
  moreover have "data_queue (env_statQueue log_env) = []" by (simp add: log_env_def tsqueue_new_def)
  ultimately show ?thesis
    using mysql_select_thread [where rounds = "[?rd]" and e = log_env and shown = runStats and startTime = 0 and endTime = 10,
        OF pg(1) main_pareto_ok pg(2) sql con cfg rd] by (simp add: q) blast
qed

end
