(* ===== verification/MongoDBDriver.thy ===== *)
theory MongoDBDriver
  imports DriverCalls Uri
begin

text \<open>
  \<open>MongoDBDriver.hpp\<close> and \<open>MongoDBDriver.cpp\<close>. The client library is not part of the sources: a
  document is the list of its fields, the commands are values, and how the server answers is a
  parameter (a command either takes effect or throws).
\<close>

section \<open>The constructor\<close>

text \<open>
  The global \<open>mongo_init\<close>, and whether the constructor initialises the client library.
\<close>

definition mongo_init_start :: int where
  "mongo_init_start = 0"

definition MongoDBDriver_new ::
  "string \<Rightarrow> string \<Rightarrow> string \<Rightarrow> string \<Rightarrow> int \<Rightarrow> generic_driver \<times> int \<times> bool" where
  "MongoDBDriver_new u p d l mongo_init =
     (GenericDriver u p d l,
      if mongo_init = 0 then (mongo_init + 1, True) else (mongo_init, False))"

section \<open>The connection\<close>

text \<open>\<open>std::stoi(s, nullptr, 10)\<close>: white space, a sign, digits; the rest is ignored.\<close>

definition is_space :: "char \<Rightarrow> bool" where
  "is_space c \<longleftrightarrow> c \<in> set [CHR '' '', CHR 0x09, CHR 0x0A, CHR 0x0B, CHR 0x0C, CHR 0x0D]"

definition stoi :: "string \<Rightarrow> int res" where
  "stoi s =
     (let s = dropWhile is_space s;
          (neg, s) = (case s of
                        [] \<Rightarrow> (False, [])
                      | c # cs \<Rightarrow> if c = CHR ''-'' then (True, cs)
                                  else if c = CHR ''+'' then (False, cs) else (False, s));
          ds = takeWhile is_digit s;
          n = (if neg then - int (read_nat ds) else int (read_nat ds)) in
      if ds = [] then Inl InvalidArgument
      else if n < - 2147483648 \<or> n > 2147483647 then Inl OutOfRange
      else Inr n)"

text \<open>The host and port that \<open>getConnection\<close> connects to; -1 lets the library take its default.\<close>

definition Mongo_hostAndPort :: "string \<Rightarrow> (string \<times> int) res" where
  "Mongo_hostAndPort link =
     rbind (Uri_Parse link) (\<lambda>u.
     (let p = (if Port u = [] then -1 else (case stoi (Port u) of Inl e \<Rightarrow> -1 | Inr n \<Rightarrow> n)) in
      Inr (Host u, p)))"

definition Mongo_getConnection :: "(string \<times> int \<Rightarrow> bool) \<Rightarrow> string \<Rightarrow> bool res" where
  "Mongo_getConnection connect link = rbind (Mongo_hostAndPort link) (\<lambda>hp. Inr (connect hp))"

section \<open>Threads and ranges\<close>

text \<open>The threads are detached, so none is kept for \<open>JoinThreads\<close>; the lists are what is started.\<close>

definition Mongo_Prep :: "config \<Rightarrow> thread list" where
  "Mongo_Prep cfg = loader_threads cfg loadStats"

definition Mongo_Run :: "config \<Rightarrow> thread list" where
  "Mongo_Run cfg = loader_threads cfg [InsertMetric, DeleteDevice]"

definition Mongo_getDeviceRange :: "ts_range \<Rightarrow> u32 \<Rightarrow> dev_range res" where
  "Mongo_getDeviceRange tsRange collection_id = Inl UninitValue"

definition collection :: "string \<Rightarrow> nat \<Rightarrow> string" where
  "collection dbname table = dbname @ ''.metrics'' @ show_nat table"

text \<open>
  \<open>newest db c\<close>: the field \<open>ts\<close> of the document that \<open>findOne\<close>, sorted by \<open>ts\<close> downwards, returns, as
  \<open>be.Int()\<close> reads it, or the exception that one of the two throws; the cast to \<open>unsigned long\<close> extends its sign. As in the MySQL driver,
  \<open>start_table\<close> is shadowed. The result of \<open>getConnection\<close> is ignored.
\<close>

definition Mongo_range_body :: "('db \<Rightarrow> string \<Rightarrow> int option res) \<Rightarrow> string \<Rightarrow> 'db \<Rightarrow> nat \<Rightarrow> ts_range \<Rightarrow> ts_range res" where
  "Mongo_range_body newest dbname db table ret =
     rbind (newest db (collection dbname table)) (\<lambda>max_ts.
     (let ret = (case max_ts of
                   None \<Rightarrow> ret
                 | Some t \<Rightarrow> ret\<lparr>ts_max := max (ts_max ret) (word_of_int t)\<rparr>)
      in Inr (if ts_min ret = -1 then ret\<lparr>ts_min := 0\<rparr> else ret)))"

definition Mongo_getTimestampRange ::
  "(string \<times> int \<Rightarrow> bool) \<Rightarrow> ('db \<Rightarrow> string \<Rightarrow> int option res) \<Rightarrow> generic_driver
   \<Rightarrow> config \<Rightarrow> 'db \<Rightarrow> u32 \<Rightarrow> ts_range res" where
  "Mongo_getTimestampRange connect newest g cfg db collection_id =
     rbind (Mongo_getConnection connect (url g)) (\<lambda>_.
     (let start_table = 1;
          end_table = (if collection_id \<noteq> 0 then collection_id else DBTables cfg) in
      uint_loop start_table (unat end_table) (Mongo_range_body newest (database g) db)
        \<lparr>ts_min = StartTimestamp, ts_max = StartTimestamp\<rparr>))"

section \<open>\<open>InsertQuery\<close>\<close>

datatype bson = BUInt u32 | BInt int | BDouble real

type_synonym document = "(string \<times> bson) list"

definition bson_record :: "u32 \<Rightarrow> u32 \<Rightarrow> metric_row \<Rightarrow> document" where
  "bson_record timestamp dev r =
     [(''ts'', BUInt timestamp), (''device_id'', BUInt dev), (''metric_id'', BInt (row_metric r)),
      (''cnt'', BInt (row_cnt r)), (''value'', BDouble (row_val r))]"

text \<open>
  \<open>insert\<close> is the bulk insert. The driver has no \<open>catch\<close> here, so its exceptions leave the call (and
  end the thread's function).
\<close>

definition Mongo_InsertQuery ::
  "('db \<Rightarrow> string \<Rightarrow> document list \<Rightarrow> 'db res) \<Rightarrow> 'db ctx \<Rightarrow> call_times \<Rightarrow> int list \<Rightarrow> real list
   \<Rightarrow> int \<Rightarrow> u32 \<Rightarrow> u32 \<Rightarrow> u32 \<Rightarrow> 'db env \<Rightarrow> ('db env \<times> int list \<times> real list) res option"
where
  "Mongo_InsertQuery ins ctx c ms us threadId tab timestamp dev e =
     (case PGen (ctx_driver ctx) of
        None \<Rightarrow> Some (Inl UninitPointer)
      | Some pg \<Rightarrow>
          (case us of
             [] \<Rightarrow> None
           | u # us \<Rightarrow>
               (let metricsCnt = GetNext_int pg MaxMetricsPerTs 0 u in
                if metricsCnt < 0 then None
                else
                  (case metric_loop (\<lambda>mc. True) pg (\<lambda>bulk r. bulk @ [bson_record timestamp dev r])
                          (nat metricsCnt) [] ms us [] of
                     None \<Rightarrow> None
                   | Some (bulk_data, ms', us') \<Rightarrow>
                       Some (rbind (ins (env_db e) (collection (database (ctx_driver ctx)) (unat tab)) bulk_data) (\<lambda>db.
                             rbind (add_stats ctx InsertMetric (took_us c sdiv 1000) False c (e\<lparr>env_db := db\<rparr>)) (\<lambda>e.
                             Inr (push_stat InsertMetric c (word_of_int metricsCnt) e, ms', us'))))))))"

definition Mongo_DeleteQuery :: "int \<Rightarrow> u32 \<Rightarrow> u32 \<Rightarrow> 'db env \<Rightarrow> 'db env" where
  "Mongo_DeleteQuery threadId timestamp dev e = e"

definition Mongo_handle ::
  "('db \<Rightarrow> string \<Rightarrow> document list \<Rightarrow> 'db res) \<Rightarrow> 'db ctx \<Rightarrow> call_times \<Rightarrow> int list \<Rightarrow> real list
   \<Rightarrow> int \<Rightarrow> message \<Rightarrow> 'db env \<Rightarrow> ('db env \<times> int list \<times> real list) res option"
where
  "Mongo_handle ins ctx c ms us threadId m e =
     (case op m of
        Insert \<Rightarrow> Mongo_InsertQuery ins ctx c ms us threadId (table_id m) (ts m) (device_id m) e
      | Delete \<Rightarrow> Some (Inr (Mongo_DeleteQuery threadId (ts m) (device_id m) e, ms, us))
      | _ \<Rightarrow> Some (Inr (e, ms, us)))"

text \<open>The body of the endless loop in \<open>InsertData\<close> (\<open>loader_step AtPop\<close> in \<open>Loader\<close>).\<close>

definition Mongo_InsertData_body ::
  "('db \<Rightarrow> string \<Rightarrow> document list \<Rightarrow> 'db res) \<Rightarrow> 'db ctx \<Rightarrow> config \<Rightarrow> message_type list \<Rightarrow> int \<Rightarrow> arrival
   \<Rightarrow> int list \<Rightarrow> real list \<Rightarrow> 'db env \<times> int \<Rightarrow> (('db env \<times> int) \<times> int list \<times> real list) res option"
where
  "Mongo_InsertData_body ins ctx cfg showStats threadId a ms us st =
     (case Mongo_handle ins ctx (ar_call a) ms us threadId (ar_message a) (fst st) of
        None \<Rightarrow> None
      | Some r \<Rightarrow>
          Some (rbind r (\<lambda>(e, ms, us).
                rbind (periodic_display ctx cfg showStats (ar_endTime a) (e, snd st)) (\<lambda>st.
                Inr (st, ms, us)))))"

text \<open>The thread after it has handled the messages of \<open>as\<close>; its loop has no end, and nothing catches its
  exceptions.\<close>

definition Mongo_InsertData ::
  "(string \<times> int \<Rightarrow> bool) \<Rightarrow> ('db \<Rightarrow> string \<Rightarrow> document list \<Rightarrow> 'db res) \<Rightarrow> 'db ctx \<Rightarrow> config \<Rightarrow> message_type list \<Rightarrow> int \<Rightarrow> int \<Rightarrow> arrival list
   \<Rightarrow> int list \<Rightarrow> real list \<Rightarrow> 'db env \<Rightarrow> (('db env \<times> int) \<times> int list \<times> real list) res option"
where
  "Mongo_InsertData connect ins ctx cfg showStats threadId startTime as ms us e =
     in_thread
       (case Mongo_getConnection connect (url (ctx_driver ctx)) of
          Inl x \<Rightarrow> Some (Inl x)
        | Inr _ \<Rightarrow>
            loader_loop (Mongo_InsertData_body ins ctx cfg showStats threadId) as ms us
              (thread_env cfg threadId e, startTime))"

section \<open>\<open>CreateSchema\<close>\<close>

datatype mongo_cmd =
    DropCollection string
  | CreateCollection string
  | CreateIndex string "string list" bool

definition mongo_schema :: "string \<Rightarrow> int \<Rightarrow> mongo_cmd list" where
  "mongo_schema dbname table =
     (let c = dbname @ ''.metrics'' @ show_int table in
      [DropCollection c, CreateCollection c,
       CreateIndex c [''device_id'', ''metric_id'', ''ts''] True,
       CreateIndex c [''device_id'', ''ts'', ''metric_id'', ''val''] False,
       CreateIndex c [''metric_id'', ''ts'', ''val''] False,
       CreateIndex c [''ts'', ''val''] False])"

text \<open>Commands until one throws; the exception is printed and forgotten.\<close>

fun mongo_run :: "('db \<Rightarrow> mongo_cmd \<Rightarrow> 'db \<times> bool) \<Rightarrow> mongo_cmd list \<Rightarrow> 'db \<Rightarrow> 'db \<times> bool" where
  "mongo_run exec [] db = (db, True)"
| "mongo_run exec (c # cs) db =
     (let (db', ok) = exec db c in if ok then mongo_run exec cs db' else (db', False))"

text \<open>The loop over the tables, which the exception leaves; \<open>table\<close> is signed.\<close>

function mongo_tables ::
  "('db \<Rightarrow> mongo_cmd \<Rightarrow> 'db \<times> bool) \<Rightarrow> string \<Rightarrow> int \<Rightarrow> nat \<Rightarrow> 'db \<Rightarrow> ('db \<times> bool) res" where
  "mongo_tables exec dbname table n db =
     (if table \<le> int n
      then (let (db', ok) = mongo_run exec (mongo_schema dbname table) db in
            if \<not> ok then Inr (db', False)
            else if table = 2147483647 then Inl SignedOverflow
            else mongo_tables exec dbname (table + 1) n db')
      else Inr (db, True))"
  by pat_completeness auto
termination
  by (relation "measure (\<lambda>(exec, dbname, table, n, db). nat (int n + 1 - table))") auto

declare mongo_tables.simps [simp del]

definition Mongo_CreateSchema ::
  "(string \<times> int \<Rightarrow> bool) \<Rightarrow> ('db \<Rightarrow> mongo_cmd \<Rightarrow> 'db \<times> bool) \<Rightarrow> generic_driver
   \<Rightarrow> config \<Rightarrow> 'db \<Rightarrow> 'db res" where
  "Mongo_CreateSchema connect exec g cfg db =
     rbind (Mongo_getConnection connect (url g)) (\<lambda>_.
     rbind (mongo_tables exec (database g) 1 (unat (DBTables cfg)) db) (\<lambda>(db, ok). Inr db))"

definition MongoDBDriver ::
  "(string \<times> int \<Rightarrow> bool) \<Rightarrow> ('db \<Rightarrow> mongo_cmd \<Rightarrow> 'db \<times> bool) \<Rightarrow> ('db \<Rightarrow> string \<Rightarrow> int option res)
   \<Rightarrow> generic_driver \<Rightarrow> 'db driver" where
  "MongoDBDriver connect exec newest g =
     \<lparr>drv_CreateSchema = Mongo_CreateSchema connect exec g, drv_Prep = Mongo_Prep, drv_Run = Mongo_Run,
      drv_getTimestampRange = Mongo_getTimestampRange connect newest g\<rparr>"

end
