(* ===== verification/MongoFacts.thy ===== *)
theory MongoFacts
  imports MongoDBDriver Queries
begin

text \<open>
  The MongoDB driver: the port it connects to, the range it reports, the documents it inserts and
  the indexes that are to serve them.
\<close>

section \<open>The constructor\<close>

text \<open>The library is initialised by the first of any number of constructor calls, and by no other.\<close>

fun constructed :: "(string \<times> string \<times> string \<times> string) list \<Rightarrow> int \<Rightarrow> bool list" where
  "constructed [] i = []"
| "constructed ((u, p, d, l) # xs) i =
     (let (g, i', fresh) = MongoDBDriver_new u p d l i in fresh # constructed xs i')"

lemma constructed_later: "i \<noteq> 0 \<Longrightarrow> constructed xs i = replicate (length xs) False"
  by (induction xs i rule: constructed.induct) (simp_all add: MongoDBDriver_new_def)

lemma initialised_once: "constructed (x # xs) mongo_init_start = True # replicate (length xs) False"
  by (cases x) (simp add: mongo_init_start_def MongoDBDriver_new_def constructed_later)

section \<open>The port\<close>

lemma digit_no_space: "c \<in> digit_chars \<Longrightarrow> \<not> is_space c \<and> is_digit c \<and> c \<noteq> CHR ''-'' \<and> c \<noteq> CHR ''+''"
  by (auto simp: digit_chars_def is_space_def is_digit_def)

lemma stoi_show_nat: "n \<le> 2147483647 \<Longrightarrow> stoi (show_nat n) = Inr (int n)"
proof -
  assume n: "n \<le> 2147483647"
  obtain c cs where s: "show_nat n = c # cs" by (cases "show_nat n") auto
  have "\<forall>x \<in> set (show_nat n). \<not> is_space x \<and> is_digit x \<and> x \<noteq> CHR ''-'' \<and> x \<noteq> CHR ''+''"
    using show_nat_digits [of n] digit_no_space by blast
  then have "dropWhile is_space (show_nat n) = show_nat n" "takeWhile is_digit (show_nat n) = show_nat n"
    "c \<noteq> CHR ''-''" "c \<noteq> CHR ''+''"
    using s by (simp_all add: takeWhile_eq_all_conv)
  with n s read_show_nat [of n] show ?thesis by (simp add: stoi_def)
qed

text \<open>C29: The MongoDB driver connects to the host of its URL, and to the port that is written there in
  decimal, or to the default port of the library when there is none.\<close>

theorem mongo_host_and_port:
  assumes "wf_uri u" and "Port u = [] \<or> Port u = show_nat p" and "p \<le> 2147483647"
  shows "Mongo_hostAndPort (render u) = Inr (Host u, if Port u = [] then -1 else int p)"
  using assms(2) stoi_show_nat [OF assms(3)]
  by (auto simp: Mongo_hostAndPort_def parse_render [OF assms(1)])

lemma mongo_host_and_port_witness: "Mongo_hostAndPort ''tcp://db1:27017'' = Inr (''db1'', 27017)"
  using mongo_host_and_port [of "\<lparr>QueryString = [], Path = [], Protocol = ''tcp'', Host = ''db1'', Port = ''27017''\<rparr>" 27017]
  by (simp add: wf_uri_def render_def authority_def show_nat.simps digit_def)

section \<open>The range\<close>

lemma Mongo_range_max:
  assumes "Mongo_getTimestampRange connect newest g cfg db tab = Inr r"
  shows "StartTimestamp \<le> ts_max r"
proof -
  have step: "StartTimestamp \<le> ts_max t"
    if "StartTimestamp \<le> ts_max s" "Mongo_range_body newest (database g) db i s = Inr t" for i s and t :: ts_range
    using that by (auto simp: Mongo_range_body_def rbind_eq_Inr Let_def max.coboundedI1 split: if_splits option.splits)
  have "uint_loop 1 (unat (if tab \<noteq> 0 then tab else DBTables cfg)) (Mongo_range_body newest (database g) db)
          \<lparr>ts_min = StartTimestamp, ts_max = StartTimestamp\<rparr> = Inr r"
    using assms unfolding Mongo_getTimestampRange_def Let_def by (auto simp: rbind_eq_Inr)
  from uint_loop_invariant [where P = "\<lambda>s. StartTimestamp \<le> ts_max s", OF step _ this] show ?thesis by simp
qed

interpretation mongo_range: range_provider "Mongo_getTimestampRange connect newest g"
  by unfold_locales (rule Mongo_range_max)

section \<open>The documents\<close>

lemma mongo_insert_eq:
  assumes "PGen (ctx_driver ctx) = Some pg" and "pareto_ok pg" and "\<forall>u \<in> set us. 0 \<le> u \<and> u < 1"
    and "Mongo_InsertQuery ins ctx c ms us t tab tim dev e = Some r"
  obtains rows ms' us' where "1 \<le> length rows" and "length rows \<le> 100" and "distinct (map row_metric rows)"
    and "\<forall>x \<in> set rows. row_ok (\<lambda>mc. True) x" and "set us' \<subseteq> set us"
    and "r = rbind (ins (env_db e) (collection (database (ctx_driver ctx)) (unat tab)) (map (bson_record tim dev) rows)) (\<lambda>db.
             rbind (add_stats ctx InsertMetric (took_us c sdiv 1000) False c (e\<lparr>env_db := db\<rparr>)) (\<lambda>e.
             Inr (push_stat InsertMetric c (of_nat (length rows)) e, ms', us')))"
proof -
  from assms(4,1) obtain u us1 where us: "us = u # us1" by (cases us) (simp_all add: Mongo_InsertQuery_def)
  have cnt: "1 \<le> GetNext_int pg MaxMetricsPerTs 0 u" using metrics_count [OF assms(2)] assms(3) us by simp
  with assms(4,1) us obtain bulk ms2 us2
    where loop: "metric_loop (\<lambda>mc. True) pg (\<lambda>bulk r. bulk @ [bson_record tim dev r])
      (nat (GetNext_int pg MaxMetricsPerTs 0 u)) [] ms us1 [] = Some (bulk, ms2, us2)"
    by (auto simp: Mongo_InsertQuery_def Let_def split: option.splits)
  from metric_loop_list [OF loop assms(2)] assms(3) us obtain rows
    where rows: "bulk = map (bson_record tim dev) rows" "1 \<le> length rows" "length rows \<le> 100"
      "distinct (map row_metric rows)" "\<forall>x \<in> set rows. row_ok (\<lambda>mc. True) x"
      "(word_of_int (GetNext_int pg MaxMetricsPerTs 0 u) :: u32) = of_nat (length rows)" "set us2 \<subseteq> set us1" by metis
  show thesis
    using assms(4,1) us cnt loop rows by (intro that [where us' = us2 and ms' = ms2, OF rows(2-5)]) (auto simp: Mongo_InsertQuery_def Let_def)
qed

text \<open>A successful insert of the MongoDB driver sends one bulk of between 1 and 100 documents for
  different metrics of one device and time to the collection of the table, and pushes one statistics
  message with their number; it leaves the latency histogram alone.\<close>

theorem mongo_insert:
  assumes "PGen (ctx_driver ctx) = Some pg" and "pareto_ok pg" and "\<forall>u \<in> set us. 0 \<le> u \<and> u < 1"
    and "Mongo_InsertQuery ins ctx c ms us t tab tim dev e = Some (Inr (e', ms', us'))"
  shows "\<exists>rows. 1 \<le> length rows \<and> length rows \<le> 100 \<and> distinct (map row_metric rows) \<and>
    (\<forall>x \<in> set rows. row_ok (\<lambda>mc. True) x) \<and>
    ins (env_db e) (collection (database (ctx_driver ctx)) (unat tab)) (map (bson_record tim dev) rows)
      = Inr (env_db e') \<and>
    data_queue (env_statQueue e') = data_queue (env_statQueue e)
      @ [StatMessage InsertMetric (word_of_int (took_us c)) (of_nat (length rows))] \<and>
    env_latency e' = env_latency e"
proof -
  from mongo_insert_eq [OF assms] obtain rows ms2 us2 where rows: "1 \<le> length rows" "length rows \<le> 100"
    "distinct (map row_metric rows)" "\<forall>x \<in> set rows. row_ok (\<lambda>mc. True) x"
    and r: "Inr (e', ms', us') = rbind (ins (env_db e) (collection (database (ctx_driver ctx)) (unat tab)) (map (bson_record tim dev) rows)) (\<lambda>db.
             rbind (add_stats ctx InsertMetric (took_us c sdiv 1000) False c (e\<lparr>env_db := db\<rparr>)) (\<lambda>e.
             Inr (push_stat InsertMetric c (of_nat (length rows)) e, ms2, us2)))" .
  from r [symmetric] obtain db e1
    where "ins (env_db e) (collection (database (ctx_driver ctx)) (unat tab)) (map (bson_record tim dev) rows) = Inr db"
      "add_stats ctx InsertMetric (took_us c sdiv 1000) False c (e\<lparr>env_db := db\<rparr>) = Inr e1"
      "e' = push_stat InsertMetric c (of_nat (length rows)) e1"
    by (auto simp: rbind_eq_Inr)
  moreover from this(2) have "env_db e1 = db" "env_statQueue e1 = env_statQueue e" "env_latency e1 = env_latency e"
    by (auto simp: add_stats_def rbind_eq_Inr split: if_splits)
  ultimately show ?thesis
    using rows by (intro exI [of _ rows]) (auto simp: push_stat_def push_def)
qed

definition mongo_log_ctx :: "(string \<times> document list) list ctx" where
  "mongo_log_ctx =
     \<lparr>ctx_driver = SetGenerator (GenericDriver [] [] ''test'' []) main_pareto,
      ctx_connect = \<lambda>g db. Inr (), ctx_exec = \<lambda>db s. Inr db, ctx_query = \<lambda>db s. Inr 0, ctx_sub_init = \<lambda>row loc. row, ctx_fmt = \<lambda>x. ''0''\<rparr>"

definition mongo_log_env :: "(string \<times> document list) list env" where
  "mongo_log_env = \<lparr>env_db = [], env_latency = LatencyStats 1, env_sampled = SampledStats 0 10,
              env_statQueue = tsqueue_new, env_csv = []\<rparr>"

lemma mongo_insert_witness:
  "\<exists>e' ms' us'. Mongo_InsertQuery (\<lambda>db coll docs. Inr (db @ [(coll, docs)])) mongo_log_ctx
      \<lparr>took_us = 1500, took_ms = 1, draw_unif = 0, draw_rand = 0\<rparr> [5] [0, 0, 0] 0 1 60 1 mongo_log_env
      = Some (Inr (e', ms', us')) \<and> length (data_queue (env_statQueue e')) = 1"
proof -
  let ?q = "Mongo_InsertQuery (\<lambda>db coll docs. Inr (db @ [(coll, docs)])) mongo_log_ctx
      \<lparr>took_us = 1500, took_ms = 1, draw_unif = 0, draw_rand = 0\<rparr> [5] [0, 0, 0] 0 1 60 1 mongo_log_env"
  have pg: "PGen (ctx_driver mongo_log_ctx) = Some main_pareto" "\<not> ostreamSet (ctx_driver mongo_log_ctx)"
    by (simp_all add: mongo_log_ctx_def SetGenerator_def GenericDriver_def)
  have "GetNext_int main_pareto MaxMetricsPerTs 0 0 = 1" by (simp add: GetNext_at_0)
  then obtain e' ms' us' where r: "?q = Some (Inr (e', ms', us'))"
    by (simp add: Mongo_InsertQuery_def pg Let_def add_stats_def)
  from mongo_insert [OF pg(1) main_pareto_ok _ r] r show ?thesis
    by (auto simp: mongo_log_env_def tsqueue_new_def)
qed

section \<open>A loader thread\<close>

text \<open>The bulk insert \<open>b\<close> is that of the message which arrived.\<close>

definition bulk_of :: "string \<Rightarrow> arrival \<Rightarrow> string \<times> document list \<Rightarrow> bool" where
  "bulk_of dbname a b \<longleftrightarrow>
     fst b = collection dbname (unat (table_id (ar_message a))) \<and>
     (\<exists>rows. snd b = map (bson_record (ts (ar_message a)) (device_id (ar_message a))) rows \<and>
        1 \<le> length rows \<and> length rows \<le> 100 \<and> distinct (map row_metric rows) \<and> (\<forall>x \<in> set rows. row_ok (\<lambda>mc. True) x))"

definition insert_bulks ::
  "('db \<Rightarrow> string \<Rightarrow> document list \<Rightarrow> 'db res) \<Rightarrow> (string \<times> document list) list \<Rightarrow> 'db \<Rightarrow> 'db res" where
  "insert_bulks ins bulks db = rfold (\<lambda>b db. ins db (fst b) (snd b)) bulks db"

definition mongo_loaded ::
  "('db \<Rightarrow> string \<Rightarrow> document list \<Rightarrow> 'db res) \<Rightarrow> 'db ctx \<Rightarrow> int \<Rightarrow> arrival list \<Rightarrow> (string \<times> document list) list
   \<Rightarrow> 'db env \<Rightarrow> 'db env \<Rightarrow> bool" where
  "mongo_loaded ins ctx mx as bulks e e' \<longleftrightarrow>
     list_all2 (bulk_of (database (ctx_driver ctx))) as bulks \<and>
     insert_bulks ins bulks (env_db e) = Inr (env_db e') \<and> env_latency e' = env_latency e \<and>
     ss_repr mx (sampled ctx (map arrival_sample as)) (env_sampled e') \<and>
     data_queue (env_statQueue e') = data_queue (env_statQueue e) @ map2 arrival_stat as (map (length \<circ> snd) bulks)"

definition mongo_loads ::
  "('db \<Rightarrow> string \<Rightarrow> document list \<Rightarrow> 'db res) \<Rightarrow> 'db ctx \<Rightarrow> pareto \<Rightarrow> int \<Rightarrow> message_type list \<Rightarrow> 'db env \<Rightarrow> arrival list
   \<Rightarrow> (string \<times> document list) list \<Rightarrow> 'db env \<times> int \<Rightarrow> bool" where
  "mongo_loads ins ctx pg mx shown e0 as bulks st \<longleftrightarrow>
     PGen (ctx_driver ctx) = Some pg \<and> pareto_ok pg \<and> displays ctx shown \<and> 0 \<le> mx \<and> mongo_loaded ins ctx mx as bulks e0 (fst st)"

definition mongo_failed :: "('db \<Rightarrow> string \<Rightarrow> document list \<Rightarrow> 'db res) \<Rightarrow> mb_error \<Rightarrow> bool" where
  "mongo_failed ins x \<longleftrightarrow> (\<exists>db coll docs. ins db coll docs = Inl x)"

lemma mongo_body:
  assumes "mongo_loads ins ctx pg mx shown e0 as bulks (e, t0)" and a: "insert_arrival a" and len: "length as < 2147483647"
    and us: "\<forall>u \<in> set us. 0 \<le> u \<and> u < 1"
    and body: "Mongo_InsertData_body ins ctx cfg shown t a ms us (e, t0) = Some r"
  shows "(\<exists>x. r = Inl x \<and> mongo_failed ins x) \<or>
    (\<exists>b st' ms' us'. r = Inr (st', ms', us') \<and> mongo_loads ins ctx pg mx shown e0 (as @ [a]) (bulks @ [b]) st' \<and> set us' \<subseteq> set us)"
proof -
  let ?m = "ar_message a" and ?c = "ar_call a"
  from assms(1) have pg: "PGen (ctx_driver ctx) = Some pg" "pareto_ok pg" and mx: "0 \<le> mx" and shown: "displays ctx shown"
    and l: "mongo_loaded ins ctx mx as bulks e0 e" by (simp_all add: mongo_loads_def)
  from a have a': "op ?m = Insert" "call_ok ?c" by (simp_all add: insert_arrival_def)
  from body a' obtain q where q: "Mongo_InsertQuery ins ctx ?c ms us t (table_id ?m) (ts ?m) (device_id ?m) e = Some q"
    and r: "r = rbind q (\<lambda>(e, ms, us). rbind (periodic_display ctx cfg shown (ar_endTime a) (e, t0)) (\<lambda>st. Inr (st, ms, us)))"
    by (auto simp: Mongo_InsertData_body_def Mongo_handle_def split: option.splits)
  obtain rows ms2 us2 where rows: "1 \<le> length rows" "length rows \<le> 100"
    "distinct (map row_metric rows)" "\<forall>x \<in> set rows. row_ok (\<lambda>mc. True) x" "set us2 \<subseteq> set us"
    and eq: "q = rbind (ins (env_db e) (collection (database (ctx_driver ctx)) (unat (table_id ?m))) (map (bson_record (ts ?m) (device_id ?m)) rows)) (\<lambda>db.
             rbind (add_stats ctx InsertMetric (took_us ?c sdiv 1000) False ?c (e\<lparr>env_db := db\<rparr>)) (\<lambda>e.
             Inr (push_stat InsertMetric ?c (of_nat (length rows)) e, ms2, us2)))"
    by (rule mongo_insert_eq [OF pg us q])
  let ?b = "(collection (database (ctx_driver ctx)) (unat (table_id ?m)), map (bson_record (ts ?m) (device_id ?m)) rows)"
  show ?thesis
  proof (cases "ins (env_db e) (fst ?b) (snd ?b)")
    case (Inl x)
    then show ?thesis using r eq by (auto simp: mongo_failed_def)
  next
    case (Inr db)
    have "ss_repr mx (sampled ctx (map arrival_sample as)) (env_sampled (e\<lparr>env_db := db\<rparr>))"
      using l by (simp add: mongo_loaded_def)
    from record_arrival [OF this a len mx shown, of "length rows" ms2 us2 cfg t0] obtain e' t' where
      e': "r = Inr ((e', t'), ms2, us2)" "ss_repr mx (sampled ctx (map arrival_sample (as @ [a]))) (env_sampled e')"
        "env_db e' = db" "env_latency e' = env_latency e"
        "data_queue (env_statQueue e') = data_queue (env_statQueue e) @ [arrival_stat a (length rows)]"
      using r eq Inr by auto
    have "bulk_of (database (ctx_driver ctx)) a ?b" using rows(1-4) by (auto simp: bulk_of_def)
    moreover have "length as = length bulks" using l by (auto simp: mongo_loaded_def dest: list_all2_lengthD)
    moreover have "insert_bulks ins (bulks @ [?b]) (env_db e0) = Inr db"
      using l Inr by (simp add: mongo_loaded_def insert_bulks_def rfold_append)
    ultimately have "mongo_loaded ins ctx mx (as @ [a]) (bulks @ [?b]) e0 e'"
      using l e' by (simp add: mongo_loaded_def list_all2_appendI)
    then show ?thesis using pg mx shown rows(5) e'(1) unfolding mongo_loads_def by auto
  qed
qed

interpretation mongo_loop: handled_loop "Mongo_InsertData_body ins ctx cfg shown t"
  "mongo_loads ins ctx pg mx shown e0" "mongo_failed ins"
proof
  fix as bulks and st :: "'a env \<times> int" and a us ms r
  assume "mongo_loads ins ctx pg mx shown e0 as bulks st" "insert_arrival a" "length as < 2147483647"
    "\<forall>u \<in> set us. 0 \<le> u \<and> u < 1" "Mongo_InsertData_body ins ctx cfg shown t a ms us st = Some r"
  then show "(\<exists>x. r = Inl x \<and> mongo_failed ins x) \<or>
    (\<exists>w st' ms' us'. r = Inr (st', ms', us') \<and> mongo_loads ins ctx pg mx shown e0 (as @ [a]) (bulks @ [w]) st' \<and> set us' \<subseteq> set us)"
    by (cases st) (simp only: mongo_body)
qed

text \<open>C35: A loader thread of the MongoDB driver, in either mode, after any number of messages. Either its URL could not be
  parsed (that the connection itself failed goes unnoticed), or an insert raised an exception, which
  ends the process. Or it has sent, for each insert message
  it popped and in that order, one bulk of 1 to 100 documents for different metrics of the device
  and time of the message to the collection of its table, and for each one pushed a statistics
  message with the number of documents and, with a CSV stream, recorded a sample. It never records
  a latency, so the table that \<open>main\<close> prints at the end has no line.\<close>

theorem mongo_loader_thread:
  assumes "PGen (ctx_driver ctx) = Some pg" and "pareto_ok pg" and "0 \<le> cfg_maxsamples cfg"
    and "\<forall>db coll docs x. ins db coll docs = Inl x \<longrightarrow> (\<exists>w. x = MongoException w)"
    and "list_all insert_arrival as" and "length as \<le> 2147483647" and "\<forall>u \<in> set us. 0 \<le> u \<and> u < 1"
    and "Mongo_InsertData connect ins ctx cfg shown t startTime as ms us e = Some r"
    and "displays ctx shown"
  shows "(\<exists>x. Mongo_getConnection connect (url (ctx_driver ctx)) = Inl x \<and> r = Inl (uncaught x)) \<or>
    r = Inl Terminate \<and> (\<exists>db coll docs w. ins db coll docs = Inl (MongoException w)) \<or>
    (\<exists>bulks e' lastDisplay ms' us'. r = Inr ((e', lastDisplay), ms', us') \<and>
       mongo_loaded ins ctx (cfg_maxsamples cfg) as bulks e e')"
proof (cases "Mongo_getConnection connect (url (ctx_driver ctx))")
  case (Inl x)
  with assms(8) show ?thesis by (simp add: Mongo_InsertData_def in_thread_def)
next
  case (Inr x)
  let ?mx = "cfg_maxsamples cfg" and ?e = "thread_env cfg t e"
  have start: "mongo_loads ins ctx pg ?mx shown ?e [] [] (?e, startTime)"
    using assms(1-3,9) by (simp add: mongo_loads_def mongo_loaded_def thread_env_def ss_repr_init insert_bulks_def)
  from assms(8) Inr obtain q where
    q: "loader_loop (Mongo_InsertData_body ins ctx cfg shown t) as ms us (?e, startTime) = Some q"
    and r: "Some r = in_thread (Some q)"
    by (auto simp: Mongo_InsertData_def in_thread_def split: option.splits)
  have len: "length ([] :: arrival list) + length as \<le> 2147483647" using assms(6) by simp
  from mongo_loop.handle_all [OF assms(5) start len assms(7) q] show ?thesis
  proof (elim disjE exE conjE)
    fix y assume y: "q = Inl y" "mongo_failed ins y"
    then obtain db coll docs where f: "ins db coll docs = Inl y" by (auto simp: mongo_failed_def)
    with assms(4) obtain w where "y = MongoException w" by blast
    with f r y(1) show ?thesis by (auto simp: in_thread_def uncaught_def)
  next
    fix bulks st ms' us'
    assume h: "q = Inr (st, ms', us')" "mongo_loads ins ctx pg ?mx shown ?e ([] @ as) ([] @ bulks) st"
    obtain e' t' where "st = (e', t')" by (cases st)
    with h r show ?thesis by (auto simp: in_thread_def mongo_loads_def mongo_loaded_def thread_env_def)
  qed
qed

definition one_arrival :: arrival where
  "one_arrival =
     \<lparr>ar_message = Message Insert 60 1 1,
      ar_call = \<lparr>took_us = 1500, took_ms = 1, draw_unif = 0, draw_rand = 0\<rparr>, ar_endTime = 20000\<rparr>"

lemma mongo_loader_thread_witness:
  "\<exists>e' lastDisplay ms' us'. Mongo_InsertData (\<lambda>hp. True) (\<lambda>db coll docs. Inr (db @ [(coll, docs)])) mongo_log_ctx
      default_config loadStats 0 0 [one_arrival] [5] [0, 0, 0] mongo_log_env = Some (Inr ((e', lastDisplay), ms', us')) \<and>
    length (data_queue (env_statQueue e')) = 1 \<and> env_latency e' = LatencyStats 1"
proof -
  let ?ins = "\<lambda>(db :: (string \<times> document list) list) coll docs. (Inr (db @ [(coll, docs)]) :: (string \<times> document list) list res)"
  have pg: "PGen (ctx_driver mongo_log_ctx) = Some main_pareto" and quiet: "\<not> ostreamSet (ctx_driver mongo_log_ctx)"
    and con: "Mongo_getConnection (\<lambda>hp. True) (url (ctx_driver mongo_log_ctx)) = Inr True"
    by (simp_all add: mongo_log_ctx_def SetGenerator_def GenericDriver_def Mongo_getConnection_def Mongo_hostAndPort_def
        Uri_Parse_def uri_empty_def)
  have cnt: "GetNext_int main_pareto MaxMetricsPerTs 0 0 = 1" by (simp add: GetNext_at_0)
  have "\<exists>r. Mongo_InsertData (\<lambda>hp. True) ?ins mongo_log_ctx default_config loadStats 0 0 [one_arrival] [5] [0, 0, 0] mongo_log_env = Some r"
    using con
    by (auto simp: Mongo_InsertData_def Mongo_InsertData_body_def Mongo_handle_def one_arrival_def Mongo_InsertQuery_def
        pg cnt Let_def in_thread_def split: sum.split)
  then obtain r where r: "Mongo_InsertData (\<lambda>hp. True) ?ins mongo_log_ctx default_config loadStats 0 0 [one_arrival]
      [5] [0, 0, 0] mongo_log_env = Some r" ..
  have ok: "list_all insert_arrival [one_arrival]" by (simp add: one_arrival_def insert_arrival_def call_ok_def)
  from mongo_loader_thread [OF pg main_pareto_ok _ _ ok _ _ r displays_simps(1)] con r show ?thesis
    by (fastforce simp: mongo_loaded_def mongo_log_env_def tsqueue_new_def default_config_def list_all2_Cons1)
qed

text \<open>The unique index of every collection is over fields that all inserted documents have. Each of the
  other indexes names the field \<open>val\<close>, which no inserted document has: the insert writes the value to
  a field \<open>value\<close>.\<close>

theorem mongo_indexes:
  assumes "CreateIndex c keys uniq \<in> set (mongo_schema dbname table)"
  shows "(uniq \<longrightarrow> set keys \<subseteq> fst ` set (bson_record tim dev r)) \<and>
    (\<not> uniq \<longrightarrow> ''val'' \<in> set keys \<and> ''val'' \<notin> fst ` set (bson_record tim dev r))"
  using assms by (auto simp: mongo_schema_def Let_def bson_record_def)

lemma mongo_indexes_witness:
  "''val'' \<notin> fst ` set (bson_record 60 1 \<lparr>row_metric = 1, row_cnt = 2, row_val = 3\<rparr>)"
proof -
  have "CreateIndex (''test.metrics'' @ show_int 1) [''ts'', ''val''] False \<in> set (mongo_schema ''test'' 1)"
    by (simp add: mongo_schema_def Let_def)
  from mongo_indexes [OF this] show ?thesis by simp
qed

end
