(* ===== verification/CassandraDriver.thy ===== *)
theory CassandraDriver
  imports DriverCalls
begin

text \<open>
  \<open>CassandraDriver.hpp\<close> and \<open>CassandraDriver.cpp\<close>. How the cluster answers is a parameter: a
  statement or a batch changes the database and reports whether it succeeded; the driver prints an
  error and goes on. The freeing of futures, statements and batches has no counterpart.
\<close>

section \<open>Threads, ranges and single statements\<close>

definition Cassandra_Prep :: "config \<Rightarrow> thread list" where
  "Cassandra_Prep cfg = loader_threads cfg loadStats"

definition Cassandra_Run :: "config \<Rightarrow> thread list" where
  "Cassandra_Run cfg = loader_threads cfg runStats @ [SelectThread runStats]"

definition Cassandra_getTimestampRange :: "config \<Rightarrow> 'db \<Rightarrow> u32 \<Rightarrow> ts_range res" where
  "Cassandra_getTimestampRange cfg db tab = Inr \<lparr>ts_min = StartTimestamp, ts_max = StartTimestamp\<rparr>"

text \<open>The function has no return statement.\<close>

definition Cassandra_getDeviceRange :: "ts_range \<Rightarrow> u32 \<Rightarrow> dev_range res" where
  "Cassandra_getDeviceRange tsRange tab = Inl MissingReturn"

text \<open>The statement, and what is printed to the error stream; the code is returned.\<close>

definition execute_query ::
  "('db \<Rightarrow> string \<Rightarrow> 'db \<times> string option) \<Rightarrow> string \<Rightarrow> 'db \<times> string \<Rightarrow> ('db \<times> string) \<times> bool" where
  "execute_query exec sql st =
     (let (db, err) = st; (db', failure) = exec db sql in
      case failure of
        None \<Rightarrow> ((db', err), True)
      | Some message \<Rightarrow> ((db', err @ ''Query error: '' @ message @ [CHR 0x0A]), False))"

section \<open>\<open>InsertQuery\<close>\<close>

text \<open>\<open>timestamp*1000\<close> is computed in \<open>unsigned int\<close>; \<open>table_id\<close> does not occur.\<close>

definition cassandra_sql :: "(real \<Rightarrow> string) \<Rightarrow> u32 \<Rightarrow> u32 \<Rightarrow> metric_row \<Rightarrow> string" where
  "cassandra_sql fmt timestamp dev r =
     ''INSERT INTO metricsdata2.metrics ('' @ ''device_id, metric_id, ts, cnt, val) VALUES ('' @
     show_word dev @ '','' @ show_int (row_metric r) @ '','' @ show_word (timestamp * 1000) @ '','' @
     show_int (row_cnt r) @ '','' @ fmt (row_val r) @ '');''"

text \<open>
  \<open>batch\<close> executes a logged batch. The two clock readings both come after it, so \<open>took_us\<close> is the
  time between two consecutive readings.
\<close>

definition Cassandra_InsertQuery ::
  "('db \<Rightarrow> string list \<Rightarrow> 'db \<times> bool) \<Rightarrow> 'db ctx \<Rightarrow> call_times \<Rightarrow> int list \<Rightarrow> real list
   \<Rightarrow> int \<Rightarrow> u32 \<Rightarrow> u32 \<Rightarrow> u32 \<Rightarrow> 'db env \<Rightarrow> ('db env \<times> int list \<times> real list) res option"
where
  "Cassandra_InsertQuery batch ctx c ms us threadId tab timestamp dev e =
     (case PGen (ctx_driver ctx) of
        None \<Rightarrow> Some (Inl UninitPointer)
      | Some pg \<Rightarrow>
          (case us of
             [] \<Rightarrow> None
           | u # us \<Rightarrow>
               (let metricsCnt = GetNext_int pg MaxMetricsPerTs 0 u in
                if metricsCnt < 0 then None
                else
                  (case metric_loop (\<lambda>mc. True) pg (\<lambda>stmts r. stmts @ [cassandra_sql (ctx_fmt ctx) timestamp dev r])
                          (nat metricsCnt) [] ms us [] of
                     None \<Rightarrow> None
                   | Some (stmts, ms', us') \<Rightarrow>
                       (let (db, ok) = batch (env_db e) stmts in
                        Some (rbind (add_stats ctx InsertMetric (took_us c sdiv 1000) False c (e\<lparr>env_db := db\<rparr>)) (\<lambda>e.
                              Inr (push_stat InsertMetric c (word_of_int metricsCnt) e, ms', us'))))))))"

text \<open>\<open>InsertData\<close>: only inserts are handled; \<open>SelectData\<close> has an empty body.\<close>

definition Cassandra_handle ::
  "('db \<Rightarrow> string list \<Rightarrow> 'db \<times> bool) \<Rightarrow> 'db ctx \<Rightarrow> call_times \<Rightarrow> int list \<Rightarrow> real list
   \<Rightarrow> int \<Rightarrow> message \<Rightarrow> 'db env \<Rightarrow> ('db env \<times> int list \<times> real list) res option"
where
  "Cassandra_handle batch ctx c ms us threadId m e =
     (case op m of
        Insert \<Rightarrow> Cassandra_InsertQuery batch ctx c ms us threadId (table_id m) (ts m) (device_id m) e
      | _ \<Rightarrow> Some (Inr (e, ms, us)))"

definition Cassandra_InsertData_body ::
  "('db \<Rightarrow> string list \<Rightarrow> 'db \<times> bool) \<Rightarrow> 'db ctx \<Rightarrow> config \<Rightarrow> message_type list \<Rightarrow> int \<Rightarrow> arrival
   \<Rightarrow> int list \<Rightarrow> real list \<Rightarrow> 'db env \<times> int \<Rightarrow> (('db env \<times> int) \<times> int list \<times> real list) res option"
where
  "Cassandra_InsertData_body batch ctx cfg showStats threadId a ms us st =
     (case Cassandra_handle batch ctx (ar_call a) ms us threadId (ar_message a) (fst st) of
        None \<Rightarrow> None
      | Some r \<Rightarrow>
          Some (rbind r (\<lambda>(e, ms, us).
                rbind (periodic_display ctx cfg showStats (ar_endTime a) (e, snd st)) (\<lambda>st.
                Inr (st, ms, us)))))"

text \<open>The thread after it has handled the messages of \<open>as\<close>; its loop has no end.\<close>

definition Cassandra_InsertData ::
  "('db \<Rightarrow> string list \<Rightarrow> 'db \<times> bool) \<Rightarrow> 'db ctx \<Rightarrow> config \<Rightarrow> message_type list \<Rightarrow> int \<Rightarrow> int \<Rightarrow> arrival list
   \<Rightarrow> int list \<Rightarrow> real list \<Rightarrow> 'db env \<Rightarrow> (('db env \<times> int) \<times> int list \<times> real list) res option"
where
  "Cassandra_InsertData batch ctx cfg showStats threadId startTime as ms us e =
     loader_loop (Cassandra_InsertData_body batch ctx cfg showStats threadId) as ms us
       (thread_env cfg threadId e, startTime)"

text \<open>
  A loader thread runs its endless loop when it could connect; otherwise it prints the error, shows
  its statistics and ends.
\<close>

definition Cassandra_InsertData_unconnected ::
  "'db ctx \<Rightarrow> config \<Rightarrow> message_type list \<Rightarrow> int \<Rightarrow> string \<Rightarrow> int \<Rightarrow> int \<Rightarrow> 'db env \<Rightarrow> string
   \<Rightarrow> ('db env \<times> string) res"
where
  "Cassandra_InsertData_unconnected ctx cfg showStats threadId message startTime endTime e err =
     rbind (final_display ctx showStats endTime (thread_env cfg threadId e, startTime)) (\<lambda>e.
     Inr (e, err @ ''Unable to connect: '' @ message @ [CHR 0x0A]))"

text \<open>
  The whole thread: the settings of the cluster object, in the order of the calls, go into \<open>connect\<close>,
  which gives the message of a failure. A thread that could connect is in its loop (\<^const>\<open>Inl\<close>), one that
  could not has ended (\<^const>\<open>Inr\<close>).
\<close>

datatype cluster_setting =
    protocol_version int
  | contact_points string
  | num_threads_io int
  | queue_size_io int
  | pending_requests_low_water_mark int
  | pending_requests_high_water_mark int
  | core_connections_per_host int
  | max_connections_per_host int
  | max_requests_per_flush int

definition loader_cluster :: "cluster_setting list" where
  "loader_cluster =
     [protocol_version 3, contact_points ''127.0.0.1'', num_threads_io 4, queue_size_io 10000,
      pending_requests_low_water_mark 5000, pending_requests_high_water_mark 10000,
      core_connections_per_host 1, max_connections_per_host 2, max_requests_per_flush 10000]"

definition Cassandra_InsertData_thread ::
  "(cluster_setting list \<Rightarrow> string option) \<Rightarrow> ('db \<Rightarrow> string list \<Rightarrow> 'db \<times> bool) \<Rightarrow> 'db ctx \<Rightarrow> config
   \<Rightarrow> message_type list \<Rightarrow> int \<Rightarrow> int \<Rightarrow> int \<Rightarrow> arrival list \<Rightarrow> int list \<Rightarrow> real list \<Rightarrow> 'db env \<Rightarrow> string
   \<Rightarrow> (('db env \<times> int) \<times> int list \<times> real list + 'db env \<times> string) res option"
where
  "Cassandra_InsertData_thread connect batch ctx cfg showStats threadId startTime endTime as ms us e err =
     (case connect loader_cluster of
        None \<Rightarrow>
          (case Cassandra_InsertData batch ctx cfg showStats threadId startTime as ms us e of
             None \<Rightarrow> None
           | Some r \<Rightarrow> Some (rbind r (\<lambda>st. Inr (Inl st))))
      | Some message \<Rightarrow>
          Some (rbind (Cassandra_InsertData_unconnected ctx cfg showStats threadId message startTime endTime e err)
                  (\<lambda>st. Inr (Inr st))))"

definition Cassandra_SelectData :: "message_type list \<Rightarrow> 'db env \<Rightarrow> 'db env" where
  "Cassandra_SelectData showStats e = e"

section \<open>\<open>CreateSchema\<close>\<close>

definition sp :: "nat \<Rightarrow> string" where
  "sp n = replicate n (CHR '' '')"

definition tabs2 :: string where
  "tabs2 = [CHR 0x09, CHR 0x09] @ sp 2"

definition keyspace_sql :: string where
  "keyspace_sql =
     ''CREATE KEYSPACE metricsdata2 WITH replication = { '' @ sp 18 @
     [CHR 0x27] @ ''class'' @ [CHR 0x27] @ '': '' @ [CHR 0x27] @ ''SimpleStrategy'' @ [CHR 0x27] @ '', '' @
     [CHR 0x27] @ ''replication_factor'' @ [CHR 0x27] @ '': '' @ [CHR 0x27] @ ''3'' @ [CHR 0x27] @ '' };''"

definition metrics_table_sql :: string where
  "metrics_table_sql =
     ''CREATE TABLE metricsdata2.metrics ( '' @
     tabs2 @ ''device_id int, '' @ tabs2 @ ''metric_id int, '' @ tabs2 @ ''ts timestamp, '' @
     tabs2 @ ''cnt int, '' @ tabs2 @ ''val double, '' @ tabs2 @ ''PRIMARY KEY ((device_id, metric_id), ts));''"

definition Cassandra_CreateSchema ::
  "('db \<Rightarrow> string \<Rightarrow> 'db \<times> string option) \<Rightarrow> ('db \<Rightarrow> bool) \<Rightarrow> config \<Rightarrow> 'db \<Rightarrow> 'db res" where
  "Cassandra_CreateSchema exec can_connect cfg db =
     (if can_connect db
      then (let (st, ok) = execute_query exec keyspace_sql (db, []);
                (st, ok) = execute_query exec metrics_table_sql st
            in Inr (fst st))
      else Inr db)"

definition CassandraDriver ::
  "('db \<Rightarrow> string \<Rightarrow> 'db \<times> string option) \<Rightarrow> ('db \<Rightarrow> bool) \<Rightarrow> 'db driver" where
  "CassandraDriver exec can_connect =
     \<lparr>drv_CreateSchema = Cassandra_CreateSchema exec can_connect, drv_Prep = Cassandra_Prep,
      drv_Run = Cassandra_Run, drv_getTimestampRange = Cassandra_getTimestampRange\<rparr>"

end
