(* ===== verification/CassandraFacts.thy ===== *)
theory CassandraFacts
  imports CassandraDriver Queries
begin

text \<open>
  The Cassandra driver: the statements it sends and what is recorded for them, and a whole loader
  thread.
\<close>

section \<open>The range\<close>

interpretation cassandra_range: range_provider Cassandra_getTimestampRange
  by unfold_locales (auto simp: Cassandra_getTimestampRange_def)

section \<open>The statements\<close>

text \<open>The Cassandra driver multiplies the timestamp by 1000 in 32 bits. The milliseconds it writes are
  right exactly for timestamps before 4294968, in February 1970, so never for a timestamp the
  benchmark produces.\<close>

theorem cassandra_milliseconds_wrap:
  "(unat (timestamp * 1000 :: u32) = unat timestamp * 1000 \<longleftrightarrow> unat timestamp < 4294968) \<and>
   (ucast StartTimestamp \<le> timestamp \<longrightarrow>
      cassandra_sql fmt timestamp dev r \<noteq>
        ''INSERT INTO metricsdata2.metrics ('' @ ''device_id, metric_id, ts, cnt, val) VALUES ('' @
        show_word dev @ '','' @ show_int (row_metric r) @ '','' @ show_nat (unat timestamp * 1000) @ '','' @
        show_int (row_cnt r) @ '','' @ fmt (row_val r) @ '');'')"
proof -
  have "unat (timestamp * 1000 :: u32) = unat timestamp * 1000 mod 4294967296"
    by (simp add: unat_word_ariths(2))
  moreover have "k mod 4294967296 = k \<longleftrightarrow> k < 4294967296" for k :: nat
    by (metis mod_less mod_less_divisor zero_less_numeral)
  moreover have "unat timestamp * 1000 < 4294967296 \<longleftrightarrow> unat timestamp < 4294968" by linarith
  ultimately have wrap: "unat (timestamp * 1000 :: u32) = unat timestamp * 1000 \<longleftrightarrow> unat timestamp < 4294968" by simp
  moreover have "\<not> unat timestamp < 4294968" if "ucast StartTimestamp \<le> timestamp"
    using that by (simp add: word_le_nat_alt StartTimestamp_def)
  ultimately show ?thesis
    by (auto simp: cassandra_sql_def show_word_def show_nat_inject)
qed

lemma cassandra_milliseconds_wrap_witness:
  "unat (946684800 * 1000 :: u32) \<noteq> unat (946684800 :: u32) * 1000"
  using cassandra_milliseconds_wrap [of 946684800] by simp

lemma cassandra_insert_eq:
  assumes "PGen (ctx_driver ctx) = Some pg" and "pareto_ok pg" and "\<forall>u \<in> set us. 0 \<le> u \<and> u < 1"
    and "Cassandra_InsertQuery batch ctx c ms us t tab tim dev e = Some r"
  obtains rows ms' us' where "1 \<le> length rows" and "length rows \<le> 100" and "distinct (map row_metric rows)"
    and "\<forall>x \<in> set rows. row_ok (\<lambda>mc. True) x" and "set us' \<subseteq> set us"
    and "r = rbind (add_stats ctx InsertMetric (took_us c sdiv 1000) False c
               (e\<lparr>env_db := fst (batch (env_db e) (map (cassandra_sql (ctx_fmt ctx) tim dev) rows))\<rparr>)) (\<lambda>e.
             Inr (push_stat InsertMetric c (of_nat (length rows)) e, ms', us'))"
proof -
  from assms(4,1) obtain u us1 where us: "us = u # us1" by (cases us) (simp_all add: Cassandra_InsertQuery_def)
  have cnt: "1 \<le> GetNext_int pg MaxMetricsPerTs 0 u" using metrics_count [OF assms(2)] assms(3) us by simp
  with assms(4,1) us obtain stmts ms2 us2
    where loop: "metric_loop (\<lambda>mc. True) pg (\<lambda>stmts r. stmts @ [cassandra_sql (ctx_fmt ctx) tim dev r])
      (nat (GetNext_int pg MaxMetricsPerTs 0 u)) [] ms us1 [] = Some (stmts, ms2, us2)"
    by (auto simp: Cassandra_InsertQuery_def Let_def split: option.splits)
  from metric_loop_list [OF loop assms(2)] assms(3) us obtain rows
    where rows: "stmts = map (cassandra_sql (ctx_fmt ctx) tim dev) rows" "1 \<le> length rows" "length rows \<le> 100"
      "distinct (map row_metric rows)" "\<forall>x \<in> set rows. row_ok (\<lambda>mc. True) x"
      "(word_of_int (GetNext_int pg MaxMetricsPerTs 0 u) :: u32) = of_nat (length rows)" "set us2 \<subseteq> set us1" by metis
  show thesis
    using assms(4,1) us cnt loop rows by (intro that [where us' = us2 and ms' = ms2, OF rows(2-5)]) (auto simp: Cassandra_InsertQuery_def Let_def case_prod_beta)
qed

text \<open>An insert of the Cassandra driver executes one batch of between 1 and 100 statements for different
  metrics of one device, and none of them depends on the table of the message. Whether the batch
  succeeds makes no difference: in both cases one statistics message with the number of rows is
  pushed, and no error is raised.\<close>

theorem cassandra_insert:
  assumes "PGen (ctx_driver ctx) = Some pg" and "pareto_ok pg" and "\<forall>u \<in> set us. 0 \<le> u \<and> u < 1"
    and "\<not> ostreamSet (ctx_driver ctx)"
    and "Cassandra_InsertQuery batch ctx c ms us t tab tim dev e = Some r"
  shows "\<exists>rows e' ms' us'. r = Inr (e', ms', us') \<and> 1 \<le> length rows \<and> length rows \<le> 100 \<and>
    distinct (map row_metric rows) \<and> (\<forall>x \<in> set rows. row_ok (\<lambda>mc. True) x) \<and>
    env_db e' = fst (batch (env_db e) (map (cassandra_sql (ctx_fmt ctx) tim dev) rows)) \<and>
    data_queue (env_statQueue e') = data_queue (env_statQueue e)
      @ [StatMessage InsertMetric (word_of_int (took_us c)) (of_nat (length rows))] \<and>
    env_latency e' = env_latency e \<and>
    Cassandra_InsertQuery batch ctx c ms us t tab' tim dev e = Some r"
proof -
  from cassandra_insert_eq [OF assms(1-3,5)] obtain rows ms2 us2 where rows: "1 \<le> length rows" "length rows \<le> 100"
    "distinct (map row_metric rows)" "\<forall>x \<in> set rows. row_ok (\<lambda>mc. True) x"
    and r: "r = rbind (add_stats ctx InsertMetric (took_us c sdiv 1000) False c
               (e\<lparr>env_db := fst (batch (env_db e) (map (cassandra_sql (ctx_fmt ctx) tim dev) rows))\<rparr>)) (\<lambda>e.
             Inr (push_stat InsertMetric c (of_nat (length rows)) e, ms2, us2))" .
  have "Cassandra_InsertQuery batch ctx c ms us t tab' tim dev e = Some r"
    using assms(5) by (simp add: Cassandra_InsertQuery_def)
  with rows r assms(4) show ?thesis
    by (intro exI [of _ rows]) (auto simp: add_stats_def push_stat_def push_def)
qed

definition cassandra_ctx :: "string list ctx" where
  "cassandra_ctx =
     \<lparr>ctx_driver = SetGenerator (GenericDriver [] [] ''test'' []) main_pareto, ctx_connect = \<lambda>g db. Inr (),
      ctx_exec = \<lambda>db s. Inr db, ctx_query = \<lambda>db s. Inr 0, ctx_sub_init = \<lambda>row loc. row, ctx_fmt = \<lambda>x. ''0''\<rparr>"

definition cassandra_env :: "string list env" where
  "cassandra_env = \<lparr>env_db = [], env_latency = LatencyStats 1, env_sampled = SampledStats 0 10,
                    env_statQueue = tsqueue_new, env_csv = []\<rparr>"

text \<open>A cluster that executes nothing and reports every batch as failed.\<close>

lemma cassandra_insert_witness:
  "\<exists>e' ms' us'. Cassandra_InsertQuery (\<lambda>db stmts. (db, False)) cassandra_ctx
      \<lparr>took_us = 1500, took_ms = 1, draw_unif = 0, draw_rand = 0\<rparr> [5] [0, 0, 0] 0 1 60 1 cassandra_env
      = Some (Inr (e', ms', us')) \<and> length (data_queue (env_statQueue e')) = 1 \<and> env_db e' = []"
proof -
  let ?q = "Cassandra_InsertQuery (\<lambda>db stmts. (db, False)) cassandra_ctx
      \<lparr>took_us = 1500, took_ms = 1, draw_unif = 0, draw_rand = 0\<rparr> [5] [0, 0, 0] 0 1 60 1 cassandra_env"
  have pg: "PGen (ctx_driver cassandra_ctx) = Some main_pareto" "\<not> ostreamSet (ctx_driver cassandra_ctx)"
    by (simp_all add: cassandra_ctx_def SetGenerator_def GenericDriver_def)
  have "GetNext_int main_pareto MaxMetricsPerTs 0 0 = 1" by (simp add: GetNext_at_0)
  then obtain r where r: "?q = Some r"
    by (simp add: Cassandra_InsertQuery_def pg Let_def)
  have us: "\<forall>u \<in> set [0, 0, 0]. 0 \<le> u \<and> u < (1 :: real)" by simp
  have "\<exists>(rows :: metric_row list) e' ms' us'. r = Inr (e', ms', us') \<and> env_db e' = env_db cassandra_env \<and>
      data_queue (env_statQueue e') = data_queue (env_statQueue cassandra_env) @ [StatMessage InsertMetric 1500 (of_nat (length rows))]"
    using cassandra_insert [OF pg(1) main_pareto_ok us pg(2) r, of 1] by simp blast
  then obtain rows :: "metric_row list" and e' ms' us' where "r = Inr (e', ms', us')" "env_db e' = env_db cassandra_env"
    "data_queue (env_statQueue e') = data_queue (env_statQueue cassandra_env) @ [StatMessage InsertMetric 1500 (of_nat (length rows))]"
    by blast
  with r show ?thesis by (simp add: cassandra_env_def tsqueue_new_def)
qed

section \<open>A loader thread\<close>

text \<open>The statements are those of the message which arrived.\<close>

definition batch_of :: "(real \<Rightarrow> string) \<Rightarrow> arrival \<Rightarrow> string list \<Rightarrow> bool" where
  "batch_of fmt a stmts \<longleftrightarrow>
     (\<exists>rows. stmts = map (cassandra_sql fmt (ts (ar_message a)) (device_id (ar_message a))) rows \<and>
        1 \<le> length rows \<and> length rows \<le> 100 \<and> distinct (map row_metric rows) \<and> (\<forall>x \<in> set rows. row_ok (\<lambda>mc. True) x))"

definition run_batches :: "('db \<Rightarrow> string list \<Rightarrow> 'db \<times> bool) \<Rightarrow> string list list \<Rightarrow> 'db \<Rightarrow> 'db" where
  "run_batches batch bs db = fold (\<lambda>stmts db. fst (batch db stmts)) bs db"

definition cassandra_loaded ::
  "('db \<Rightarrow> string list \<Rightarrow> 'db \<times> bool) \<Rightarrow> 'db ctx \<Rightarrow> int \<Rightarrow> arrival list \<Rightarrow> string list list \<Rightarrow> 'db env \<Rightarrow> 'db env \<Rightarrow> bool" where
  "cassandra_loaded batch ctx mx as bs e e' \<longleftrightarrow>
     list_all2 (batch_of (ctx_fmt ctx)) as bs \<and>
     env_db e' = run_batches batch bs (env_db e) \<and> env_latency e' = env_latency e \<and>
     ss_repr mx (sampled ctx (map arrival_sample as)) (env_sampled e') \<and>
     data_queue (env_statQueue e') = data_queue (env_statQueue e) @ map2 arrival_stat as (map length bs)"

definition cassandra_loads ::
  "('db \<Rightarrow> string list \<Rightarrow> 'db \<times> bool) \<Rightarrow> 'db ctx \<Rightarrow> pareto \<Rightarrow> int \<Rightarrow> message_type list \<Rightarrow> 'db env \<Rightarrow> arrival list
   \<Rightarrow> string list list \<Rightarrow> 'db env \<times> int \<Rightarrow> bool" where
  "cassandra_loads batch ctx pg mx shown e0 as bs st \<longleftrightarrow>
     PGen (ctx_driver ctx) = Some pg \<and> pareto_ok pg \<and> displays ctx shown \<and> 0 \<le> mx \<and> cassandra_loaded batch ctx mx as bs e0 (fst st)"

lemma cassandra_body:
  assumes "cassandra_loads batch ctx pg mx shown e0 as bs (e, t0)" and a: "insert_arrival a" and len: "length as < 2147483647"
    and us: "\<forall>u \<in> set us. 0 \<le> u \<and> u < 1"
    and body: "Cassandra_InsertData_body batch ctx cfg shown t a ms us (e, t0) = Some r"
  shows "\<exists>b st' ms' us'. r = Inr (st', ms', us') \<and> cassandra_loads batch ctx pg mx shown e0 (as @ [a]) (bs @ [b]) st' \<and> set us' \<subseteq> set us"
proof -
  let ?m = "ar_message a" and ?c = "ar_call a"
  from assms(1) have pg: "PGen (ctx_driver ctx) = Some pg" "pareto_ok pg" and mx: "0 \<le> mx" and shown: "displays ctx shown"
    and l: "cassandra_loaded batch ctx mx as bs e0 e" by (simp_all add: cassandra_loads_def)
  from a have a': "op ?m = Insert" "call_ok ?c" by (simp_all add: insert_arrival_def)
  from body a' obtain q where q: "Cassandra_InsertQuery batch ctx ?c ms us t (table_id ?m) (ts ?m) (device_id ?m) e = Some q"
    and r: "r = rbind q (\<lambda>(e, ms, us). rbind (periodic_display ctx cfg shown (ar_endTime a) (e, t0)) (\<lambda>st. Inr (st, ms, us)))"
    by (auto simp: Cassandra_InsertData_body_def Cassandra_handle_def split: option.splits)
  obtain rows ms2 us2 where rows: "1 \<le> length rows" "length rows \<le> 100"
    "distinct (map row_metric rows)" "\<forall>x \<in> set rows. row_ok (\<lambda>mc. True) x" "set us2 \<subseteq> set us"
    and eq: "q = rbind (add_stats ctx InsertMetric (took_us ?c sdiv 1000) False ?c
               (e\<lparr>env_db := fst (batch (env_db e) (map (cassandra_sql (ctx_fmt ctx) (ts ?m) (device_id ?m)) rows))\<rparr>)) (\<lambda>e.
             Inr (push_stat InsertMetric ?c (of_nat (length rows)) e, ms2, us2))"
    by (rule cassandra_insert_eq [OF pg us q])
  let ?b = "map (cassandra_sql (ctx_fmt ctx) (ts ?m) (device_id ?m)) rows"
  let ?db = "fst (batch (env_db e) ?b)"
  have "ss_repr mx (sampled ctx (map arrival_sample as)) (env_sampled (e\<lparr>env_db := ?db\<rparr>))"
    using l by (simp add: cassandra_loaded_def)
  from record_arrival [OF this a len mx shown, of "length rows" ms2 us2 cfg t0] obtain e' t' where
    e': "r = Inr ((e', t'), ms2, us2)" "ss_repr mx (sampled ctx (map arrival_sample (as @ [a]))) (env_sampled e')"
      "env_db e' = ?db" "env_latency e' = env_latency e"
      "data_queue (env_statQueue e') = data_queue (env_statQueue e) @ [arrival_stat a (length rows)]"
    using r eq by auto
  have "batch_of (ctx_fmt ctx) a ?b" using rows(1-4) by (auto simp: batch_of_def)
  moreover have "length as = length bs" using l by (auto simp: cassandra_loaded_def dest: list_all2_lengthD)
  moreover have "run_batches batch (bs @ [?b]) (env_db e0) = ?db"
    using l by (simp add: cassandra_loaded_def run_batches_def)
  ultimately have "cassandra_loaded batch ctx mx (as @ [a]) (bs @ [?b]) e0 e'"
    using l e' by (simp add: cassandra_loaded_def list_all2_appendI)
  then show ?thesis using pg mx shown rows(5) e'(1) unfolding cassandra_loads_def by auto
qed

interpretation cassandra_loop: handled_loop "Cassandra_InsertData_body batch ctx cfg shown t"
  "cassandra_loads batch ctx pg mx shown e0" "\<lambda>x. False"
proof
  fix as bs and st :: "'a env \<times> int" and a us ms r
  assume "cassandra_loads batch ctx pg mx shown e0 as bs st" "insert_arrival a" "length as < 2147483647"
    "\<forall>u \<in> set us. 0 \<le> u \<and> u < 1" "Cassandra_InsertData_body batch ctx cfg shown t a ms us st = Some r"
  then show "(\<exists>x. r = Inl x \<and> False) \<or>
    (\<exists>w st' ms' us'. r = Inr (st', ms', us') \<and> cassandra_loads batch ctx pg mx shown e0 (as @ [a]) (bs @ [w]) st' \<and> set us' \<subseteq> set us)"
    by (cases st) (intro disjI2, simp only: cassandra_body)
qed

text \<open>C36: A connected loader thread of the Cassandra driver never fails (in the run mode: without a CSV stream):
  it sends for each insert message it
  popped, in that order, one batch of 1 to 100 statements for different metrics of the device and
  time of the message, without its table, and goes on whether the batch succeeds or not. Failed batches
  are counted like the others: the statistics messages have the number of statements of each. It
  never records a latency.\<close>

theorem cassandra_loader_thread:
  assumes "PGen (ctx_driver ctx) = Some pg" and "pareto_ok pg" and "0 \<le> cfg_maxsamples cfg"
    and "list_all insert_arrival as" and "length as \<le> 2147483647" and "\<forall>u \<in> set us. 0 \<le> u \<and> u < 1"
    and "Cassandra_InsertData batch ctx cfg shown t startTime as ms us e = Some r"
    and "displays ctx shown"
  shows "\<exists>bs e' lastDisplay ms' us'. r = Inr ((e', lastDisplay), ms', us') \<and>
    cassandra_loaded batch ctx (cfg_maxsamples cfg) as bs e e'"
proof -
  let ?mx = "cfg_maxsamples cfg" and ?e = "thread_env cfg t e"
  have start: "cassandra_loads batch ctx pg ?mx shown ?e [] [] (?e, startTime)"
    using assms(1-3,8) by (simp add: cassandra_loads_def cassandra_loaded_def thread_env_def ss_repr_init run_batches_def)
  have len: "length ([] :: arrival list) + length as \<le> 2147483647" using assms(5) by simp
  from cassandra_loop.handle_all [OF assms(4) start len assms(6) assms(7) [unfolded Cassandra_InsertData_def]]
  obtain bs st ms' us' where h: "r = Inr (st, ms', us')" "cassandra_loads batch ctx pg ?mx shown ?e ([] @ as) ([] @ bs) st"
    by blast
  obtain e' t' where "st = (e', t')" by (cases st)
  with h show ?thesis by (auto simp: cassandra_loads_def cassandra_loaded_def thread_env_def)
qed

lemma cassandra_loader_thread_witness:
  "\<exists>e' lastDisplay ms' us'. Cassandra_InsertData (\<lambda>db stmts. (db, False)) cassandra_ctx default_config loadStats 0 0
      [\<lparr>ar_message = Message Insert 60 1 1,
        ar_call = \<lparr>took_us = 1500, took_ms = 1, draw_unif = 0, draw_rand = 0\<rparr>, ar_endTime = 20000\<rparr>]
      [5] [0, 0, 0] cassandra_env = Some (Inr ((e', lastDisplay), ms', us')) \<and>
    length (data_queue (env_statQueue e')) = 1 \<and> env_latency e' = LatencyStats 1"
proof -
  let ?a = "\<lparr>ar_message = Message Insert 60 1 1,
    ar_call = \<lparr>took_us = 1500, took_ms = 1, draw_unif = 0, draw_rand = 0\<rparr>, ar_endTime = 20000\<rparr>"
  let ?t = "Cassandra_InsertData (\<lambda>db stmts. (db, False)) cassandra_ctx default_config loadStats 0 0 [?a] [5] [0, 0, 0] cassandra_env"
  have pg: "PGen (ctx_driver cassandra_ctx) = Some main_pareto"
    by (simp add: cassandra_ctx_def SetGenerator_def GenericDriver_def)
  have cnt: "GetNext_int main_pareto MaxMetricsPerTs 0 0 = 1" by (simp add: GetNext_at_0)
  have "\<exists>r. ?t = Some r"
    by (auto simp: Cassandra_InsertData_def Cassandra_InsertData_body_def Cassandra_handle_def Cassandra_InsertQuery_def
        pg cnt Let_def split: sum.split)
  then obtain r where r: "?t = Some r" ..
  have ok: "list_all insert_arrival [?a]" by (simp add: insert_arrival_def call_ok_def)
  from cassandra_loader_thread [OF pg main_pareto_ok _ ok _ _ r displays_simps(1)] r show ?thesis
    by (fastforce simp: cassandra_loaded_def cassandra_env_def tsqueue_new_def default_config_def list_all2_Cons1)
qed

section \<open>Loaders that cannot connect\<close>

text \<open>
  A loader that cannot connect touches neither the database nor the queue: it reports the error and is
  gone. When no loader could connect, nobody pops, and the first wait for the empty queue after a push
  never ends: the main thread is blocked for good.
\<close>

lemma cassandra_unconnected:
  assumes "connect loader_cluster = Some message" and "ostreamSet (ctx_driver ctx) = False"
  shows "Cassandra_InsertData_thread connect batch ctx cfg showStats threadId t0 t1 as ms us e err =
    Some (Inr (Inr (thread_env cfg threadId e, err @ ''Unable to connect: '' @ message @ [CHR 0x0A])))"
  using assms by (simp add: Cassandra_InsertData_thread_def Cassandra_InsertData_unconnected_def final_display_def)

end
