(* ===== verification/MetricBench.thy ===== *)
theory MetricBench
  imports Preparer MySQLDriver MongoDBDriver CassandraDriver
begin

text \<open>
  \<open>metricbench.cpp\<close>: the function \<open>main\<close>, from the parsed options to the exit code. The option
  parser, \<open>to_lower\<close> and \<open>iequals\<close> are Boost's; the parsed values are a record and the two functions
  are parameters, as is whether a file can be opened. The console output is left out.
\<close>

section \<open>Options\<close>

text \<open>
  The values with a variable of their own in \<open>Config\<close> are already stored in \<open>o_config\<close>. \<open>None\<close> is
  an option that was not given and has no default.
\<close>

record options =
  o_help :: bool
  o_driver :: string
  o_mode :: string
  o_config :: config
  o_engine :: "string option"
  o_engine_extra :: "string option"
  o_pre_create :: "string option"
  o_loglevel :: "string option"

datatype driver_kind = MySQL | MongoDB | Cassandra

text \<open>The chain of comparisons; with another name the pointer stays unassigned.\<close>

definition select_driver :: "string \<Rightarrow> driver_kind option" where
  "select_driver name =
     (if name = ''mysql'' then Some MySQL else if name = ''mongodb'' then Some MongoDB
      else if name = ''cassandra'' then Some Cassandra else None)"

definition select_loglevel ::
  "(string \<Rightarrow> string) \<Rightarrow> (string \<Rightarrow> string \<Rightarrow> bool) \<Rightarrow> string \<Rightarrow> loglevel \<Rightarrow> loglevel" where
  "select_loglevel to_lower iequals s lvl =
     foldl (\<lambda>lvl l. if iequals (to_lower s) (loglevel_e_Label l) then l else lvl) lvl loglevels"

text \<open>\<open>find(needle) != string::npos\<close>.\<close>

fun occurs_in :: "string \<Rightarrow> string \<Rightarrow> bool" where
  "occurs_in needle [] \<longleftrightarrow> needle = []"
| "occurs_in needle (c # cs) \<longleftrightarrow> take (length needle) (c # cs) = needle \<or> occurs_in needle cs"

definition fix_url :: "string \<Rightarrow> string" where
  "fix_url s = (if \<not> occurs_in ''://'' s then ''tcp://'' @ s else s)"

text \<open>
  What the option parser has stored when the program is called without arguments: the default values.
  Only \<open>engine-extra\<close>, \<open>pre-create\<close> and the two CSV files have none, so \<open>engine\<close> always counts as given.
\<close>

definition default_options :: "(string \<Rightarrow> string) \<Rightarrow> options" where
  "default_options to_lower =
     \<lparr>o_help = False, o_driver = ''mysql'', o_mode = [], o_config = default_config,
      o_engine = Some DEFAULT_STORAGE_ENGINE, o_engine_extra = None, o_pre_create = None,
      o_loglevel = Some (to_lower (loglevel_e_Label DEFAULT_LOG_LEVEL))\<rparr>"

section \<open>Up to the driver\<close>

record wiring =
  su_cfg :: config
  su_kind :: driver_kind
  su_driver :: generic_driver
  su_latency :: latency_stats
  su_csv :: string

definition EXIT_FAILURE :: int where "EXIT_FAILURE = 1"
definition EXIT_SUCCESS :: int where "EXIT_SUCCESS = 0"

definition with_options :: "options \<Rightarrow> config \<Rightarrow> config" where
  "with_options opts cfg =
     (let cfg = (case o_engine opts of
                   Some s \<Rightarrow> if o_driver opts \<noteq> ''mongodb'' then cfg\<lparr>storageEngine := s\<rparr> else cfg
                 | None \<Rightarrow> cfg);
          cfg = (case o_engine_extra opts of Some s \<Rightarrow> cfg\<lparr>storageEngineExtra := s\<rparr> | None \<Rightarrow> cfg)
      in (case o_pre_create opts of Some s \<Rightarrow> cfg\<lparr>preCreateStatement := s\<rparr> | None \<Rightarrow> cfg))"

text \<open>An early return of \<open>main\<close> is \<open>Inl\<close> with its code.\<close>

definition main_setup ::
  "(string \<Rightarrow> string) \<Rightarrow> (string \<Rightarrow> string \<Rightarrow> bool) \<Rightarrow> (string \<Rightarrow> bool) \<Rightarrow> options \<Rightarrow> (int + wiring) res" where
  "main_setup to_lower iequals can_open opts =
     (if o_help opts then Inr (Inl EXIT_FAILURE)
      else
        (let cfg = o_config opts;
             cfg = (case o_loglevel opts of
                      Some s \<Rightarrow> cfg\<lparr>logLevel := select_loglevel to_lower iequals s (logLevel cfg)\<rparr>
                    | None \<Rightarrow> cfg) in
         if logFile cfg \<noteq> ''-'' \<and> \<not> can_open (logFile cfg) then Inr (Inl EXIT_FAILURE)
         else if o_mode opts = [] then Inr (Inl EXIT_FAILURE)
         else if o_driver opts = [] then Inr (Inl EXIT_FAILURE)
         else
           (let cfg = cfg\<lparr>connHost := fix_url (connHost cfg)\<rparr> in
            if o_driver opts = ''mongodb'' \<and> \<not> occurs_in ''tcp://'' (connHost cfg)
            then Inr (Inl EXIT_FAILURE)
            else
              (let cfg = with_options opts cfg;
                   csvstream = (csvStreamingStatsFile cfg \<noteq> []) in
               if csvstream \<and> \<not> can_open (csvStreamingStatsFile cfg) then Inr (Inl EXIT_FAILURE)
               else
                 rbind (ParetoGenerator 1.04795) (\<lambda>PG.
                 (case select_driver (o_driver opts) of
                    None \<Rightarrow> Inl UninitPointer
                  | Some kind \<Rightarrow>
                      (let g = setLatencyStats (SetGenerator
                                 (GenericDriver (connUser cfg) (connPass cfg) (connDb cfg) (connHost cfg)) PG);
                           g = (if csvstream then setOstreamSampledStats g else g) in
                       Inr (Inr \<lparr>su_cfg = cfg, su_kind = kind, su_driver = g,
                                 su_latency = LatencyStats (unat (LoaderThreads cfg)),
                                 su_csv = (if csvstream then writeCSVHeader True [] else [])\<rparr>))))))))"

section \<open>The two modes\<close>

text \<open>
  What \<open>main\<close> has done when it sets \<open>processingComplete\<close>: the return value, the actions on the
  queue, and the threads that were started. A \<open>std::runtime_error\<close> (\<open>sql::SQLException\<close> is one) is
  caught and changes the return value; a \<open>mongo::DBException\<close> is none, and ends the process.
\<close>

record outcome =
  retval :: int
  actions :: "action list"
  started :: "thread list"

definition finished :: "(preparer \<times> thread list) res option \<Rightarrow> outcome res option" where
  "finished r =
     (case r of
        None \<Rightarrow> None
      | Some (Inr (p, ths)) \<Rightarrow> Some (Inr \<lparr>retval = EXIT_SUCCESS, actions = trace p, started = ths\<rparr>)
      | Some (Inl (RuntimeError w)) \<Rightarrow> Some (Inr \<lparr>retval = EXIT_FAILURE, actions = [], started = []\<rparr>)
      | Some (Inl (MongoException w)) \<Rightarrow> Some (Inl Terminate)
      | Some (Inl (SqlException w)) \<Rightarrow> Some (Inr \<lparr>retval = EXIT_FAILURE, actions = [], started = []\<rparr>)
      | Some (Inl e) \<Rightarrow> Some (Inl e))"

definition run_mode_of ::
  "string \<Rightarrow> config \<Rightarrow> 'db driver \<Rightarrow> pareto \<Rightarrow> (nat \<Rightarrow> real) \<Rightarrow> 'db \<Rightarrow> outcome res option" where
  "run_mode_of mode cfg drv PG u db =
     (if mode = ''prepare''
      then finished (case Prep (cfg\<lparr>runMode := PREPARE\<rparr>) drv db of
                       None \<Rightarrow> None
                     | Some (Inl e) \<Rightarrow> Some (Inl e)
                     | Some (Inr (p, db', ths)) \<Rightarrow> Some (Inr (p, ths)))
      else if mode = ''run'' then finished (Run (cfg\<lparr>runMode := RUN\<rparr>) drv PG u db)
      else Some (Inr \<lparr>retval = EXIT_SUCCESS, actions = [], started = []\<rparr>))"

definition main ::
  "(string \<Rightarrow> string) \<Rightarrow> (string \<Rightarrow> string \<Rightarrow> bool) \<Rightarrow> (string \<Rightarrow> bool) \<Rightarrow> (driver_kind \<Rightarrow> generic_driver \<Rightarrow> 'db driver)
   \<Rightarrow> (nat \<Rightarrow> real) \<Rightarrow> 'db \<Rightarrow> options \<Rightarrow> outcome res option"
where
  "main to_lower iequals can_open drv u db opts =
     (case main_setup to_lower iequals can_open opts of
        Inl e \<Rightarrow> Some (Inl e)
      | Inr (Inl code) \<Rightarrow> Some (Inr \<lparr>retval = code, actions = [], started = []\<rparr>)
      | Inr (Inr su) \<Rightarrow>
          (case PGen (su_driver su) of
             None \<Rightarrow> Some (Inl UninitPointer)
           | Some PG \<Rightarrow> run_mode_of (o_mode opts) (su_cfg su) (drv (su_kind su) (su_driver su)) PG u db))"

section \<open>The end\<close>

text \<open>After \<open>JoinThreads\<close>: the latencies are printed, and the return value is that of the mode.\<close>

definition main_end ::
  "(real \<Rightarrow> string) \<Rightarrow> (real \<Rightarrow> string) \<Rightarrow> latency_stats \<Rightarrow> outcome \<Rightarrow> (int \<times> string) res" where
  "main_end fmt2f fmt3f ls oc =
     rbind (displayLatencyStats fmt2f fmt3f ls) (\<lambda>(ls, out). Inr (retval oc, out))"

end
