(* ===== verification/MetricBenchFacts.thy ===== *)
theory MetricBenchFacts
  imports MetricBench PreparerFacts MySQLFacts MongoFacts
begin

text \<open>
  \<open>main\<close>: which options end the program early and which let it go on, what the drivers are wired
  with, and what a mode or driver that does not exist leads to.
\<close>

section \<open>Substrings\<close>

lemma occurs_in_append: "occurs_in n ys \<Longrightarrow> occurs_in n (xs @ ys)"
  by (induction xs) simp_all

lemma occurs_in_prefix: "n \<noteq> [] \<Longrightarrow> occurs_in n (n @ ys)"
  by (cases n) simp_all

lemma fix_url_protocol: "occurs_in ''://'' (fix_url s)"
  using occurs_in_append [OF occurs_in_prefix [of "''://''" s], of "''tcp''"] by (auto simp: fix_url_def)

section \<open>Early returns\<close>

text \<open>The configuration once the log level is set and the URL has its protocol.\<close>

definition early_return :: "(string \<Rightarrow> bool) \<Rightarrow> options \<Rightarrow> bool" where
  "early_return can_open opts \<longleftrightarrow>
     o_help opts \<or>
     logFile (o_config opts) \<noteq> ''-'' \<and> \<not> can_open (logFile (o_config opts)) \<or>
     o_mode opts = [] \<or> o_driver opts = [] \<or>
     o_driver opts = ''mongodb'' \<and> \<not> occurs_in ''tcp://'' (fix_url (connHost (o_config opts))) \<or>
     csvStreamingStatsFile (o_config opts) \<noteq> [] \<and> \<not> can_open (csvStreamingStatsFile (o_config opts))"

lemma with_options_sels [simp]:
  "connHost (with_options opts cfg) = connHost cfg" "connUser (with_options opts cfg) = connUser cfg"
  "connPass (with_options opts cfg) = connPass cfg" "connDb (with_options opts cfg) = connDb cfg"
  "csvStreamingStatsFile (with_options opts cfg) = csvStreamingStatsFile cfg"
  "LoaderThreads (with_options opts cfg) = LoaderThreads cfg" "LoadMins (with_options opts cfg) = LoadMins cfg"
  "DBTables (with_options opts cfg) = DBTables cfg" "MaxDevices (with_options opts cfg) = MaxDevices cfg"
  by (simp_all add: with_options_def Let_def split: option.split)

definition run_config :: "(string \<Rightarrow> string) \<Rightarrow> (string \<Rightarrow> string \<Rightarrow> bool) \<Rightarrow> options \<Rightarrow> config" where
  "run_config to_lower iequals opts =
     with_options opts
       ((case o_loglevel opts of
           Some s \<Rightarrow> o_config opts\<lparr>logLevel := select_loglevel to_lower iequals s (logLevel (o_config opts))\<rparr>
         | None \<Rightarrow> o_config opts)\<lparr>connHost := fix_url (connHost (o_config opts))\<rparr>)"

definition main_driver :: "(string \<Rightarrow> string) \<Rightarrow> (string \<Rightarrow> string \<Rightarrow> bool) \<Rightarrow> options \<Rightarrow> generic_driver" where
  "main_driver to_lower iequals opts =
     (let cfg = run_config to_lower iequals opts in
      \<lparr>user = connUser cfg, pass = connPass cfg, database = connDb cfg, url = connHost cfg,
       PGen = Some main_pareto, latencyStatsSet = True, ostreamSet = (csvStreamingStatsFile cfg \<noteq> []),
       threads = []\<rparr>)"

lemma main_setup_eq:
  "main_setup to_lower iequals can_open opts =
     (if early_return can_open opts then Inr (Inl EXIT_FAILURE)
      else (case select_driver (o_driver opts) of
              None \<Rightarrow> Inl UninitPointer
            | Some kind \<Rightarrow> Inr (Inr
                \<lparr>su_cfg = run_config to_lower iequals opts, su_kind = kind,
                 su_driver = main_driver to_lower iequals opts,
                 su_latency = LatencyStats (unat (LoaderThreads (o_config opts))),
                 su_csv = (if csvStreamingStatsFile (o_config opts) \<noteq> [] then csv_stream_header else [])\<rparr>)))"
  unfolding main_setup_def main_pareto
  by (simp add: early_return_def run_config_def main_driver_def Let_def GenericDriver_def SetGenerator_def
      setLatencyStats_def setOstreamSampledStats_def writeCSVHeader_def split: option.split)

section \<open>Properties\<close>

text \<open>C39: \<open>main\<close> returns early, with the failure code, exactly when help is asked for, a log or CSV file
  cannot be opened, mode or driver is empty, or the MongoDB driver is given a URL that is not TCP.
  Otherwise an unknown driver name leads to the use of a pointer that was never assigned; a known one
  gets the Pareto generator, the latency statistics, a URL with a protocol, and a CSV stream exactly
  when a file for it was named.\<close>

theorem main_setup_cases:
  "(early_return can_open opts \<longrightarrow> main_setup to_lower iequals can_open opts = Inr (Inl 1)) \<and>
   (\<not> early_return can_open opts \<longrightarrow>
      (case select_driver (o_driver opts) of
         None \<Rightarrow> main_setup to_lower iequals can_open opts = Inl UninitPointer
       | Some kind \<Rightarrow>
           (\<exists>su. main_setup to_lower iequals can_open opts = Inr (Inr su) \<and> su_kind su = kind \<and>
              PGen (su_driver su) = Some main_pareto \<and> latencyStatsSet (su_driver su) \<and>
              occurs_in ''://'' (url (su_driver su)) \<and>
              (ostreamSet (su_driver su) \<longleftrightarrow> csvStreamingStatsFile (o_config opts) \<noteq> []))))"
proof -
  have u: "url (main_driver to_lower iequals opts) = fix_url (connHost (o_config opts))"
    by (simp add: main_driver_def run_config_def Let_def split: option.split)
  have "ostreamSet (main_driver to_lower iequals opts) \<longleftrightarrow> csvStreamingStatsFile (o_config opts) \<noteq> []"
    by (simp add: main_driver_def run_config_def Let_def split: option.split)
  with u fix_url_protocol [of "connHost (o_config opts)"] show ?thesis
    by (auto simp: main_setup_eq EXIT_FAILURE_def main_driver_def Let_def split: option.split)
qed

definition basic_options :: "string \<Rightarrow> string \<Rightarrow> config \<Rightarrow> options" where
  "basic_options mode drv cfg =
     \<lparr>o_help = False, o_driver = drv, o_mode = mode, o_config = cfg, o_engine = Some ''InnoDB'',
      o_engine_extra = None, o_pre_create = None, o_loglevel = Some ''info''\<rparr>"

lemma basic_options_go_on:
  "mode \<noteq> [] \<Longrightarrow> drv \<noteq> [] \<Longrightarrow> drv \<noteq> ''mongodb'' \<Longrightarrow>
   logFile cfg = ''-'' \<Longrightarrow> csvStreamingStatsFile cfg = [] \<Longrightarrow>
   \<not> early_return can_open (basic_options mode drv cfg)"
  by (simp add: early_return_def basic_options_def)

lemma main_setup_cases_witness:
  "main_setup id (=) (\<lambda>f. True) (basic_options ''run'' ''oracle'' default_config) = Inl UninitPointer \<and>
   main_setup id (=) (\<lambda>f. True) (basic_options [] ''mysql'' default_config) = Inr (Inl 1)"
proof -
  have "\<not> early_return (\<lambda>f. True) (basic_options ''run'' ''oracle'' default_config)"
    by (intro basic_options_go_on) (simp_all add: default_config_def)
  moreover have "early_return (\<lambda>f. True) (basic_options [] ''mysql'' default_config)"
    by (simp add: early_return_def basic_options_def)
  moreover have "select_driver (o_driver (basic_options ''run'' ''oracle'' default_config)) = None"
    by (simp add: select_driver_def basic_options_def)
  ultimately show ?thesis
    using main_setup_cases [of "\<lambda>f. True" "basic_options ''run'' ''oracle'' default_config" id "(=)"]
      main_setup_cases [of "\<lambda>f. True" "basic_options [] ''mysql'' default_config" id "(=)"]
    by simp
qed

text \<open>A mode that is neither \<open>prepare\<close> nor \<open>run\<close> is not rejected: with a known driver the program does
  nothing, starts no thread, and reports success.\<close>

lemma unknown_mode_succeeds:
  assumes "\<not> early_return can_open opts" and "select_driver (o_driver opts) = Some kind"
    and "o_mode opts \<noteq> ''prepare''" and "o_mode opts \<noteq> ''run''"
  shows "main to_lower iequals can_open drv u db opts
    = Some (Inr \<lparr>retval = 0, actions = [], started = []\<rparr>)"
  using assms
  by (simp add: main_def main_setup_eq main_driver_def Let_def run_mode_of_def EXIT_SUCCESS_def)

lemma unknown_mode_succeeds_witness:
  "main id (=) (\<lambda>f. True) (\<lambda>k g. empty_driver) (\<lambda>k. 0) () (basic_options ''prepre'' ''mysql'' default_config)
     = Some (Inr \<lparr>retval = 0, actions = [], started = []\<rparr>)"
  using unknown_mode_succeeds [of "\<lambda>f. True" "basic_options ''prepre'' ''mysql'' default_config" MySQL]
    basic_options_go_on [of "''prepre''" "''mysql''" default_config "\<lambda>f. True"]
  by (simp add: basic_options_def select_driver_def default_config_def)

text \<open>C25: How \<open>main\<close> ends when the driver fails. A failing schema in the prepare mode, or a range that cannot
  be read in the run mode, is reported by the exit code 1 with no thread started. But when the range
  cannot be read in the prepare mode the process is terminated, since the reporter thread already
  runs; so does an exception of the MongoDB library, which \<open>main\<close> does not catch. A mode that does
  not exist is not reported at all: nothing is done, and the exit code is that of success.\<close>

theorem main_reports_failures:
  assumes "\<not> early_return can_open opts" and "select_driver (o_driver opts) = Some kind"
    and "d = drv kind (main_driver to_lower iequals opts)" and "cfg = run_config to_lower iequals opts"
    and "x = SqlException w \<or> x = RuntimeError w"
  shows "(o_mode opts = ''prepare'' \<and> drv_CreateSchema d (cfg\<lparr>runMode := PREPARE\<rparr>) db = Inl x \<longrightarrow>
      main to_lower iequals can_open drv u db opts = Some (Inr \<lparr>retval = 1, actions = [], started = []\<rparr>)) \<and>
    (o_mode opts = ''run'' \<and> drv_getTimestampRange d (cfg\<lparr>runMode := RUN\<rparr>) db 0 = Inl x \<longrightarrow>
      main to_lower iequals can_open drv u db opts = Some (Inr \<lparr>retval = 1, actions = [], started = []\<rparr>)) \<and>
    (o_mode opts = ''prepare'' \<and> drv_CreateSchema d (cfg\<lparr>runMode := PREPARE\<rparr>) db = Inr db' \<and>
     drv_getTimestampRange d (cfg\<lparr>runMode := PREPARE\<rparr>) db' 0 = Inl x \<longrightarrow>
      main to_lower iequals can_open drv u db opts = Some (Inl Terminate)) \<and>
    (o_mode opts = ''run'' \<and> drv_getTimestampRange d (cfg\<lparr>runMode := RUN\<rparr>) db 0 = Inl (MongoException w) \<longrightarrow>
      main to_lower iequals can_open drv u db opts = Some (Inl Terminate)) \<and>
    (o_mode opts \<noteq> ''prepare'' \<and> o_mode opts \<noteq> ''run'' \<longrightarrow>
      main to_lower iequals can_open drv u db opts = Some (Inr \<lparr>retval = 0, actions = [], started = []\<rparr>))"
proof -
  have "PGen (main_driver to_lower iequals opts) = Some main_pareto" by (simp add: main_driver_def Let_def)
  then have main: "main to_lower iequals can_open drv u db opts = run_mode_of (o_mode opts) cfg d main_pareto u db"
    using assms(1-4) by (simp add: main_def main_setup_eq)
  show ?thesis
    unfolding main using assms(5)
    by (auto simp: run_mode_of_def Prep_def Run_def finished_def uncaught_def EXIT_FAILURE_def EXIT_SUCCESS_def Let_def)
qed

lemma main_reports_failures_witness:
  "main id (=) (\<lambda>f. True) (\<lambda>k g. empty_driver\<lparr>drv_CreateSchema := \<lambda>cfg db. Inl (SqlException ''gone'')\<rparr>) (\<lambda>k. 0) ()
     (basic_options ''prepare'' ''mysql'' default_config) = Some (Inr \<lparr>retval = 1, actions = [], started = []\<rparr>)"
proof -
  let ?opts = "basic_options ''prepare'' ''mysql'' default_config"
  let ?d = "empty_driver\<lparr>drv_CreateSchema := \<lambda>cfg db. Inl (SqlException ''gone'')\<rparr>"
  have "\<not> early_return (\<lambda>f. True) ?opts"
    by (intro basic_options_go_on) (simp_all add: default_config_def)
  moreover have "select_driver (o_driver ?opts) = Some MySQL" "o_mode ?opts = ''prepare''"
    by (simp_all add: select_driver_def basic_options_def)
  ultimately show ?thesis
    using main_reports_failures [of "\<lambda>f. True" ?opts MySQL ?d "\<lambda>k g. ?d" id "(=)" "run_config id (=) ?opts" "SqlException ''gone''" "''gone''" "()"]
    by simp
qed

text \<open>Without any argument the mode is empty, and the program prints its usage and fails.\<close>

lemma no_arguments_fail:
  "main to_lower iequals can_open drv u db (default_options to_lower)
    = Some (Inr \<lparr>retval = 1, actions = [], started = []\<rparr>)"
  by (simp add: main_def main_setup_eq early_return_def default_options_def EXIT_FAILURE_def)

end
