(* ===== verification/LoadRun.thy ===== *)
theory LoadRun
  imports MySQLThreads StatsFacts MetricBench
begin

text \<open>
  The loader threads of the MySQL driver together. A run is the list of the queries in the order in
  which they end, each with the thread that made it: a query changes the shared objects (database,
  latency histogram, \<open>statQueue\<close>, CSV stream) and the objects of its own thread (sample, time of the
  last display). The threads write disjoint rows of the histogram and push under the lock of the
  queue, so a query counts as one step. The last part follows the messages from \<open>tsQueue\<close> to the
  total of the statistics thread and the line that \<open>main\<close> prints.
\<close>

section \<open>The threads\<close>

record turn =
  by_thread :: nat
  turn_arrival :: arrival
  turn_metrics :: "int list"
  turn_draws :: "real list"

type_synonym own = "sampled_stats \<times> int"

definition loader_turn ::
  "'db ctx \<Rightarrow> config \<Rightarrow> message_type list \<Rightarrow> turn \<Rightarrow> 'db env \<times> own list \<Rightarrow> ('db env \<times> own list) res option"
where
  "loader_turn ctx cfg showStats a st =
     (let (e, owns) = st; (smp, lastDisplayTime) = owns ! by_thread a in
      in_thread
        (case MySQL_InsertData_body ctx cfg showStats (int (by_thread a)) (turn_arrival a)
                (turn_metrics a) (turn_draws a) (e\<lparr>env_sampled := smp\<rparr>, lastDisplayTime) of
           None \<Rightarrow> None
         | Some r \<Rightarrow> Some (rbind r (\<lambda>((e, t), ms, us). Inr (e, owns[by_thread a := (env_sampled e, t)])))))"

fun loaders_run ::
  "'db ctx \<Rightarrow> config \<Rightarrow> message_type list \<Rightarrow> turn list \<Rightarrow> 'db env \<times> own list \<Rightarrow> ('db env \<times> own list) res option"
where
  "loaders_run ctx cfg showStats [] st = Some (Inr st)"
| "loaders_run ctx cfg showStats (a # as) st =
     (case loader_turn ctx cfg showStats a st of
        None \<Rightarrow> None
      | Some (Inl x) \<Rightarrow> Some (Inl x)
      | Some (Inr st') \<Rightarrow> loaders_run ctx cfg showStats as st')"

text \<open>What each thread creates before its loop.\<close>

definition own_start :: "config \<Rightarrow> nat \<Rightarrow> int \<Rightarrow> own list" where
  "own_start cfg n startTime = map (\<lambda>t. (SampledStats (int t) (cfg_maxsamples cfg), startTime)) [0..<n]"

section \<open>What a run leaves\<close>

definition turn_ok :: "nat \<Rightarrow> turn \<Rightarrow> bool" where
  "turn_ok n a \<longleftrightarrow> by_thread a < n \<and> insert_arrival (turn_arrival a) \<and> (\<forall>u \<in> set (turn_draws a). 0 \<le> u \<and> u < 1)"

definition turn_latency :: "turn \<Rightarrow> latency_event" where
  "turn_latency a = arrival_latency (by_thread a) (turn_arrival a)"

text \<open>The sample of a thread is that of its own queries.\<close>

definition turns_of :: "nat \<Rightarrow> turn list \<Rightarrow> sample_event list" where
  "turns_of t as = map (arrival_sample \<circ> turn_arrival) (filter (\<lambda>a. by_thread a = t) as)"

definition team_repr :: "'db ctx \<Rightarrow> nat \<Rightarrow> int \<Rightarrow> turn list \<Rightarrow> 'db env \<times> own list \<Rightarrow> bool" where
  "team_repr ctx n mx as st \<longleftrightarrow>
     ls_repr n (map turn_latency as) (env_latency (fst st)) \<and> length (snd st) = n \<and>
     (\<forall>t<n. ss_repr mx (sampled ctx (turns_of t as)) (fst (snd st ! t)))"

lemma turns_of_snoc: "turns_of t (as @ [a]) = turns_of t as @ (if by_thread a = t then [arrival_sample (turn_arrival a)] else [])"
  by (simp add: turns_of_def)

lemma turns_of_length: "length (sampled ctx (turns_of t as)) \<le> length as"
proof -
  have "length (turns_of t as) \<le> length as" by (simp add: turns_of_def)
  with sampled_simps(3) show ?thesis by (rule order_trans)
qed

lemma team_repr_start:
  assumes "ls_repr n [] (env_latency e)"
  shows "team_repr ctx n (cfg_maxsamples cfg) [] (e, own_start cfg n startTime)"
  using assms by (simp add: team_repr_def own_start_def turns_of_def ss_repr_init)

lemma loader_turn_facts:
  assumes ok: "driver_ok ctx pg" "sql_only ctx" and a: "turn_ok n a" and mx: "0 \<le> mx"
    and st: "team_repr ctx n mx done (e, owns)" and len: "length done < 2147483647"
    and shown: "displays ctx shown" and turn: "loader_turn ctx cfg shown a (e, owns) = Some r"
  shows "r = Inl Terminate \<and> (\<exists>db s w. ctx_exec ctx db s = Inl (SqlException w)) \<or>
    (\<exists>sk e' owns'. r = Inr (e', owns') \<and> team_repr ctx n mx (done @ [a]) (e', owns') \<and>
       inserts_message (ctx_fmt ctx) (turn_arrival a) sk \<and>
       exec_all (ctx_exec ctx) [''BEGIN'', fst sk, ''COMMIT''] (env_db e) = Inr (env_db e') \<and>
       data_queue (env_statQueue e') = data_queue (env_statQueue e) @ [arrival_stat (turn_arrival a) (snd sk)])"
proof -
  let ?t = "by_thread a"
  obtain smp t0 where own: "owns ! ?t = (smp, t0)" by force
  let ?e = "e\<lparr>env_sampled := smp\<rparr>"
  from a have t: "?t < n" "insert_arrival (turn_arrival a)" "\<forall>u \<in> set (turn_draws a). 0 \<le> u \<and> u < 1"
    by (simp_all add: turn_ok_def)
  from turn own obtain q where
    q: "MySQL_InsertData_body ctx cfg shown (int ?t) (turn_arrival a) (turn_metrics a) (turn_draws a) (?e, t0) = Some q"
    and r: "Some r = in_thread (Some (rbind q (\<lambda>((e, t), ms, us). Inr (e, owns[?t := (env_sampled e, t)]))))"
    by (auto simp: loader_turn_def in_thread_def split: option.splits)
  have e: "env_repr n mx (map turn_latency done) (sampled ctx (turns_of ?t done)) ?e"
    using st own t(1) len mx turns_of_length [of ctx ?t "done"] by (auto simp: team_repr_def env_repr_def)
  from insert_body [OF ok e t(1,2,3) shown q] show ?thesis
  proof (elim disjE exE conjE)
    fix sk e' t' ms' us'
    assume b: "q = Inr ((e', t'), ms', us')"
      and l: "loaded ctx n mx ?t (map turn_latency done) (sampled ctx (turns_of ?t done)) [turn_arrival a] [sk] ?e e'"
    have "team_repr ctx n mx (done @ [a]) (e', owns[?t := (env_sampled e', t')])"
      using st l t(1) own
      by (auto simp: team_repr_def loaded_def turn_latency_def turns_of_snoc nth_list_update)
    with r b l show ?thesis
      by (intro disjI2 exI [of _ sk] exI [of _ e'] exI [of _ "owns[?t := (env_sampled e', t')]"])
        (simp add: in_thread_def loaded_def)
  qed (use r in \<open>auto simp: in_thread_def uncaught_def\<close>)
qed

lemma loaders_run_facts:
  assumes ok: "driver_ok ctx pg" "sql_only ctx" and mx: "0 \<le> mx" and shown: "displays ctx shown"
    and "list_all (turn_ok n) as" and "team_repr ctx n mx done (e, owns)"
    and "length done + length as < 2147483647"
    and "loaders_run ctx cfg shown as (e, owns) = Some r"
  shows "r = Inl Terminate \<and> (\<exists>db s w. ctx_exec ctx db s = Inl (SqlException w)) \<or>
    (\<exists>sks e' owns'. r = Inr (e', owns') \<and> team_repr ctx n mx (done @ as) (e', owns') \<and>
       list_all2 (inserts_message (ctx_fmt ctx)) (map turn_arrival as) sks \<and>
       exec_all (ctx_exec ctx) (concat (map (\<lambda>sk. [''BEGIN'', fst sk, ''COMMIT'']) sks)) (env_db e) = Inr (env_db e') \<and>
       data_queue (env_statQueue e') = data_queue (env_statQueue e) @ map2 arrival_stat (map turn_arrival as) (map snd sks))"
  using assms(5-8)
proof (induction as arbitrary: "done" e owns)
  case Nil
  then show ?case by (auto simp: exec_all_def)
next
  case (Cons a as)
  from Cons.prems(4) obtain q where q: "loader_turn ctx cfg shown a (e, owns) = Some q"
    by (auto split: option.splits)
  have a: "turn_ok n a" and as: "list_all (turn_ok n) as" using Cons.prems(1) by simp_all
  have len: "length done < 2147483647" "length (done @ [a]) + length as < 2147483647" using Cons.prems(3) by simp_all
  from loader_turn_facts [OF ok a mx Cons.prems(2) len(1) shown q] show ?case
  proof (elim disjE exE conjE)
    fix sk e1 owns1
    assume b: "q = Inr (e1, owns1)" "team_repr ctx n mx (done @ [a]) (e1, owns1)"
      "inserts_message (ctx_fmt ctx) (turn_arrival a) sk"
      "exec_all (ctx_exec ctx) [''BEGIN'', fst sk, ''COMMIT''] (env_db e) = Inr (env_db e1)"
      "data_queue (env_statQueue e1) = data_queue (env_statQueue e) @ [arrival_stat (turn_arrival a) (snd sk)]"
    have rest: "loaders_run ctx cfg shown as (e1, owns1) = Some r" using Cons.prems(4) q b(1) by simp
    from Cons.IH [OF as b(2) len(2) rest] show ?thesis
    proof (elim disjE exE conjE)
      fix sks e2 owns2
      assume c: "r = Inr (e2, owns2)" "team_repr ctx n mx ((done @ [a]) @ as) (e2, owns2)"
        "list_all2 (inserts_message (ctx_fmt ctx)) (map turn_arrival as) sks"
        "exec_all (ctx_exec ctx) (concat (map (\<lambda>sk. [''BEGIN'', fst sk, ''COMMIT'']) sks)) (env_db e1) = Inr (env_db e2)"
        "data_queue (env_statQueue e2) = data_queue (env_statQueue e1) @ map2 arrival_stat (map turn_arrival as) (map snd sks)"
      have db: "exec_all (ctx_exec ctx) (concat (map (\<lambda>sk. [''BEGIN'', fst sk, ''COMMIT'']) (sk # sks))) (env_db e) = Inr (env_db e2)"
        unfolding list.map concat.simps exec_all_append b(4) rbind_Inr by (rule c(4))
      have acc: "data_queue (env_statQueue e2) = data_queue (env_statQueue e) @ map2 arrival_stat (map turn_arrival (a # as)) (map snd (sk # sks))"
        using b(5) c(5) by simp
      show ?thesis
        using c(1,2) b(3) c(3) db acc
        by (intro disjI2 exI [of _ "sk # sks"] exI [of _ e2] exI [of _ owns2] conjI) simp_all
    qed (intro disjI1 conjI exI)
  qed (use Cons.prems(4) q in auto)
qed

section \<open>From the queue to the printed totals\<close>

lemma cnt_sum_arrivals:
  assumes "list_all2 (inserts_message fmt) as sks"
  shows "cnt_sum InsertMetric (map2 arrival_stat as (map snd sks)) = of_nat (sum_list (map snd sks))"
    and "sum_list (map snd sks) \<le> 100 * length as"
proof -
  have k: "(ucast (of_nat k :: u32) :: u64) = of_nat k" if "k \<le> 100" for k
    using that by (simp add: ucast_eq uint_nat unat_of_nat)
  have "cnt_sum InsertMetric (map2 arrival_stat as (map snd sks)) = of_nat (sum_list (map snd sks)) \<and>
    sum_list (map snd sks) \<le> 100 * length as"
    using assms
    by (induction rule: list_all2_induct)
      (auto simp: cnt_sum_def of_op_def arrival_stat_def inserts_message_def k)
  then show "cnt_sum InsertMetric (map2 arrival_stat as (map snd sks)) = of_nat (sum_list (map snd sks))"
    and "sum_list (map snd sks) \<le> 100 * length as" by simp_all
qed

lemma turn_events_ok:
  assumes "list_all (turn_ok n) as"
  shows "list_all (event_ok n) (map turn_latency as)" and "\<forall>ev \<in> set (map turn_latency as). fst (snd ev) = InsertMetric"
  using assms
  by (auto simp: list_all_iff turn_ok_def turn_latency_def arrival_latency_def event_ok_def insert_arrival_def
      call_ok_def MAX_OPTYPES_def)

text \<open>The line that \<open>main\<close> prints for inserts which took \<open>us\<close>; \<open>mid\<close> holds the percentiles.\<close>

definition insert_table :: "(real \<Rightarrow> string) \<Rightarrow> int list \<Rightarrow> string \<Rightarrow> string" where
  "insert_table fmt3f us mid =
     (if us = [] then []
      else label_of InsertMetric @ '' count = '' @ show_int (int (length us)) @ mid @
           '' max = '' @ fmt3f (of_int (Max (insert 0 (set us))) / 1000) @ ''ms '' @
           '' mean = '' @ fmt3f (sum_list (map of_int us) / 1000 / length us) @ ''ms'' @ [CHR 0x0A])"

text \<open>C4: The whole load accounts for every message. In either mode (the run mode without a
  CSV stream), take any interleaving of the preparer with the loaders of
  the MySQL driver up to the joined threads, and the queries of the messages in the order and by the
  threads that handled them. Unless a statement raised an exception, which ends the process, there is
  one transaction with one insert of 1 to 100 rows for each message that was pushed; whenever the
  statistics thread has received what the loaders sent, with reports and messages of other threads in
  between, its next report shows as total the number of rows inserted; and the table that \<open>main\<close> prints at the end shows as
  many inserts as messages were pushed, with their largest and their mean time over all threads.\<close>

theorem load_accounted:
  assumes "driver_ok ctx pg" and "sql_only ctx" and "0 \<le> cfg_maxsamples cfg" and "displays ctx shown"
    and "sys_reach AtDone n acts s" and "0 < n" and "all_exited s"
    and "map (ar_message \<circ> turn_arrival) turns = handled s" and "list_all (turn_ok n) turns"
    and "length turns < 2147483647"
    and "ls_repr n [] (env_latency e)" and "data_queue (env_statQueue e) = []"
    and "loaders_run ctx cfg shown turns (e, own_start cfg n startTime) = Some r"
  shows "r = Inl Terminate \<and> (\<exists>db s w. ctx_exec ctx db s = Inl (SqlException w)) \<or>
    (\<exists>sks e' owns. r = Inr (e', owns) \<and>
       list_all2 (inserts_message (ctx_fmt ctx)) (map turn_arrival turns) sks \<and>
       mset (map (ar_message \<circ> turn_arrival) turns) = mset (pushes acts) \<and>
       exec_all (ctx_exec ctx) (concat (map (\<lambda>sk. [''BEGIN'', fst sk, ''COMMIT'']) sks)) (env_db e) = Inr (env_db e') \<and>
       (\<forall>evs sec q. of_op InsertMetric (received evs) = data_queue (env_statQueue e') \<longrightarrow>
          (\<exists>st tot outs. stats_run (evs @ [Report sec q]) = Inr (st, tot, outs) \<and> unat tot = sum_list (map snd sks))) \<and>
       (\<forall>oc. \<exists>mid. main_end fmt2f fmt3f (env_latency e') oc
          = Inr (retval oc, insert_table fmt3f (map (took_us \<circ> ar_call \<circ> turn_arrival) turns) mid)) \<and>
       length turns = length (pushes acts))"
proof -
  have all: "mset (map (ar_message \<circ> turn_arrival) turns) = mset (pushes acts)"
    using joined_facts [OF assms(5-7)] assms(8) by simp
  then have len: "length turns = length (pushes acts)" by (metis length_map size_mset)
  have mx: "length ([] :: turn list) + length turns < 2147483647" using assms(10) by simp
  from loaders_run_facts [OF assms(1-4,9) team_repr_start [OF assms(11)] mx assms(13)] show ?thesis
  proof (elim disjE exE conjE)
    fix sks e' owns
    assume f: "r = Inr (e', owns)" "team_repr ctx n (cfg_maxsamples cfg) ([] @ turns) (e', owns)"
      "list_all2 (inserts_message (ctx_fmt ctx)) (map turn_arrival turns) sks"
      "exec_all (ctx_exec ctx) (concat (map (\<lambda>sk. [''BEGIN'', fst sk, ''COMMIT'']) sks)) (env_db e) = Inr (env_db e')"
      "data_queue (env_statQueue e') = data_queue (env_statQueue e) @ map2 arrival_stat (map turn_arrival turns) (map snd sks)"
    have sum: "unat (of_nat (sum_list (map snd sks)) :: u64) = sum_list (map snd sks)"
      using cnt_sum_arrivals(2) [OF f(3)] assms(10) by (simp add: unat_of_nat)
    have stats: "\<exists>st tot outs. stats_run (evs @ [Report sec q]) = Inr (st, tot, outs) \<and> unat tot = sum_list (map snd sks)"
      if that: "of_op InsertMetric (received evs) = data_queue (env_statQueue e')" for evs sec q
    proof -
      have "cnt_sum InsertMetric (received evs) = of_nat (sum_list (map snd sks))"
        using cnt_sum_of_op [of InsertMetric "received evs"] cnt_sum_arrivals(1) [OF f(3)] that f(5) assms(12) by simp
      with stats_run_report [of evs sec q] sum show ?thesis by auto
    qed
    have "ls_repr n (map turn_latency turns) (env_latency e')" using f(2) by (simp add: team_repr_def)
    from latency_table_one_type [OF this turn_events_ok(1) [OF assms(9)] _ turn_events_ok(2) [OF assms(9)]]
    have "\<exists>ls' mid. displayLatencyStats fmt2f fmt3f (env_latency e')
        = Inr (ls', insert_table fmt3f (map (took_us \<circ> ar_call \<circ> turn_arrival) turns) mid)"
      by (simp add: MAX_OPTYPES_def insert_table_def Let_def comp_def turn_latency_def arrival_latency_def)
    then have table: "\<exists>mid. main_end fmt2f fmt3f (env_latency e') oc
        = Inr (retval oc, insert_table fmt3f (map (took_us \<circ> ar_call \<circ> turn_arrival) turns) mid)" for oc
      by (auto simp: main_end_def)
    show ?thesis
      using f(1,3,4) all len stats table
      by (intro disjI2 exI [of _ sks] exI [of _ e'] exI [of _ owns]) blast
  qed blast
qed

text \<open>One loader, one message, one row.\<close>

definition one_turn :: turn where
  "one_turn =
     \<lparr>by_thread = 0, turn_arrival = \<lparr>ar_message = Message Insert 60 1 1, ar_call = quick, ar_endTime = 20000\<rparr>,
      turn_metrics = [5], turn_draws = [0, 0, 0]\<rparr>"

lemma one_turn_returns: "\<exists>r. loaders_run log_ctx cfg loadStats [one_turn] (log_env, own_start cfg 1 0) = Some r"
proof -
  have "\<exists>r. MySQL_InsertData_body log_ctx cfg loadStats t (turn_arrival one_turn) [5] [0, 0, 0] (e, t0) = Some r" for t e t0
    using one_insert_returns [of t e]
    by (auto simp: one_turn_def MySQL_InsertData_body_def MySQL_handle_def)
  then have "\<exists>r. loader_turn log_ctx cfg loadStats one_turn (log_env, own_start cfg 1 0) = Some r"
    unfolding loader_turn_def in_thread_def
    by (fastforce simp: one_turn_def own_start_def split: option.splits sum.splits)
  then show ?thesis by (auto split: sum.split)
qed

lemma load_accounted_witness:
  "\<exists>e' owns out. loaders_run log_ctx default_config loadStats [one_turn] (log_env, own_start default_config 1 0)
       = Some (Inr (e', owns)) \<and>
     main_end (\<lambda>x. []) (\<lambda>x. []) (env_latency e') \<lparr>retval = 0, actions = [], started = []\<rparr> = Inr (0, out) \<and> out \<noteq> []"
proof -
  let ?m = "Message Insert 60 1 1"
  obtain r where r: "loaders_run log_ctx default_config loadStats [one_turn] (log_env, own_start default_config 1 0) = Some r"
    using one_turn_returns by blast
  have exited: "all_exited (one_loader_done ?m)" by (simp add: one_loader_done_def all_exited_def)
  have handled: "map (ar_message \<circ> turn_arrival) [one_turn] = handled (one_loader_done ?m)"
    by (simp add: one_turn_def one_loader_done_def)
  have ok: "list_all (turn_ok 1) [one_turn]"
    by (simp add: turn_ok_def one_turn_def insert_arrival_def quick_ok)
  have lat: "ls_repr 1 [] (env_latency log_env)" and mx: "0 \<le> cfg_maxsamples default_config"
    and q: "data_queue (env_statQueue log_env) = []"
    using log_env_ok by (simp_all add: env_repr_def default_config_def log_env_def tsqueue_new_def)
  have good: "ctx_exec log_ctx db s \<noteq> Inl x" for db s x by (simp add: log_ctx_def log_exec_def)
  from load_accounted [where fmt2f = "\<lambda>x. []" and fmt3f = "\<lambda>x. []",
      OF log_ctx_ok mx displays_simps(1) one_loader_done_reach _ exited handled ok _ lat q r] good
  obtain e' owns where e': "r = Inr (e', owns)" and table: "\<forall>oc. \<exists>mid. main_end (\<lambda>x. []) (\<lambda>x. []) (env_latency e') oc
      = Inr (retval oc, insert_table (\<lambda>x. []) (map (took_us \<circ> ar_call \<circ> turn_arrival) [one_turn]) mid)" by auto
  have "insert_table (\<lambda>x. []) (map (took_us \<circ> ar_call \<circ> turn_arrival) [one_turn]) mid \<noteq> []" for mid
    by (simp add: insert_table_def)
  with r e' table show ?thesis by (metis outcome.select_convs(1))
qed

end
