(* ===== verification/UnitTests.thy ===== *)
theory UnitTests
  imports Message LatencyStats Uri
begin

text \<open>
  The unit tests of the repository (\<open>test/LatencyStatsTest.cpp\<close>, \<open>test/MessageTypeLabelTest.cpp\<close>,
  \<open>test/UriTest.cpp\<close>), stated over the model: every \<open>BOOST_CHECK\<close> of them is a conjunct, and they pass.
  \<open>test/TemplateTest.cpp\<close> checks nothing of the program.
\<close>

section \<open>The tests\<close>

text \<open>The loop body of \<open>latency_stats_test\<close>, and its loop in steps of 100 up to 100 seconds.\<close>

definition bucket_checks :: "int \<Rightarrow> bool" where
  "bucket_checks us =
     (let bucket = latencyToBucket us;
          range = bucketBound bucket in
      bucket \<ge> 0 \<and> bucket < NUM_BUCKETS \<and> us \<ge> fst range \<and> us \<le> snd range)"

definition latency_stats_test :: bool where
  "latency_stats_test = list_all (\<lambda>k. bucket_checks (100 * int k)) [0..<1000000]"

text \<open>The loop runs to \<open>sizeof(MessageType)\<close>, so it looks at four of the seven labels.\<close>

definition message_type_label_test :: bool where
  "message_type_label_test =
     list_all (\<lambda>i. case op_of i of
                     None \<Rightarrow> False
                   | Some ty \<Rightarrow> getMessageTypeLabel (default_message\<lparr>op := ty\<rparr>) = arr_get messageTypeLabel (int i))
       [0..<MAX_OPTYPES]"

definition uri_test :: bool where
  "uri_test =
     ((case Uri_Parse ''tcp://localhost:27017'' of
         Inl e \<Rightarrow> False
       | Inr t \<Rightarrow> Protocol t = ''tcp'' \<and> Host t = ''localhost'' \<and> Port t = ''27017'') \<and>
      (case Uri_Parse ''unix:///tmp/mongodb-27017.sock'' of
         Inl e \<Rightarrow> False
       | Inr s \<Rightarrow> Protocol s = ''unix'' \<and> Path s = ''/tmp/mongodb-27017.sock''))"

section \<open>They pass\<close>

lemma bucket_checks_hold: "0 \<le> us \<Longrightarrow> us < 100000000 \<Longrightarrow> bucket_checks us"
  using latencyToBucket_range [of us] latency_in_bucket [of us] by (simp add: bucket_checks_def Let_def)

lemma tcp_parsed: "Uri_Parse ''tcp://localhost:27017''
  = Inr \<lparr>QueryString = [], Path = [], Protocol = ''tcp'', Host = ''localhost'', Port = ''27017''\<rparr>"
  by code_simp

lemma unix_parsed: "Uri_Parse ''unix:///tmp/mongodb-27017.sock''
  = Inr \<lparr>QueryString = [], Path = ''/tmp/mongodb-27017.sock'', Protocol = ''unix'', Host = [], Port = []\<rparr>"
  by code_simp

text \<open>The model passes the repository's own unit tests: the bucket of every latency below 100 seconds, in
  steps of 100 microseconds, is valid and its bounds contain the latency; the labels of the first
  four message types are those of the table; and the two URLs of the parser test are taken apart as
  the test expects.\<close>

theorem unit_tests_pass: "latency_stats_test \<and> message_type_label_test \<and> uri_test"
proof (intro conjI)
  show latency_stats_test
    unfolding latency_stats_test_def list_all_iff by (auto intro: bucket_checks_hold)
  show message_type_label_test by code_simp
  show uri_test by (simp add: uri_test_def tcp_parsed unix_parsed)
qed

end
